theory Spec2Isabelle
  imports Main "HOL-Library.Multiset"
begin

section \<open>Python values\<close>

text \<open>
  The program is the Python module \<^verbatim>\<open>RRL.py\<close>.  Python strings are modelled as HOL
  strings, a \<open>char\<close> standing for one code point below 256; Python's unbounded \<open>int\<close> is
  \<open>int\<close>.  An exception is a value: a function that can raise returns \<open>py_error + 'a\<close>,
  with \<open>Inl\<close> for the exception.  The library functions the module calls
  (\<^verbatim>\<open>str.format\<close>, \<^verbatim>\<open>urllib.parse\<close>, \<^verbatim>\<open>ipaddress\<close>, \<^verbatim>\<open>random\<close>) are modelled after
  CPython 3.11.  \<open>Unmodelled\<close> is not a Python exception: it marks the format strings
  whose meaning is left open here (see \<open>py_format\<close>).
\<close>

datatype py_error =
    ValueError string
  | IndexError string
  | KeyError string
  | AttributeError string
  | Unmodelled

definition squote :: string where
  "squote = [CHR 0x27]"

definition py_lower :: "char \<Rightarrow> char" where
  "py_lower c =
     (let n = (of_char c :: nat)
      in if (65 \<le> n \<and> n \<le> 90) \<or> (192 \<le> n \<and> n \<le> 222 \<and> n \<noteq> 215)
         then char_of (n + 32) else c)"

definition is_decimal :: "char \<Rightarrow> bool" where
  "is_decimal c = (48 \<le> (of_char c :: nat) \<and> (of_char c :: nat) \<le> 57)"

definition digitval :: "char \<Rightarrow> int" where
  "digitval c = of_char c - 48"

definition is_ascii_alpha :: "char \<Rightarrow> bool" where
  "is_ascii_alpha c =
     (let n = (of_char c :: nat) in (65 \<le> n \<and> n \<le> 90) \<or> (97 \<le> n \<and> n \<le> 122))"

text \<open>\<^verbatim>\<open>str(i)\<close> for an integer: decimal digits, most significant first, after a minus
  sign when \<open>i\<close> is negative.  \<open>str_digits\<close> is only applied to \<open>n \<ge> 0\<close>.\<close>

function str_digits :: "int \<Rightarrow> string" where
  "str_digits n = (if n < 10 then [''0123456789'' ! nat n]
                   else str_digits (n div 10) @ [''0123456789'' ! nat (n mod 10)])"
  by pat_completeness auto
termination
  by (relation "measure nat") auto

declare str_digits.simps [simp del]

definition str_int :: "int \<Rightarrow> string" where
  "str_int i = (if i < 0 then CHR ''-'' # str_digits (- i) else str_digits i)"

text \<open>\<^verbatim>\<open>s.partition(sep)\<close>, \<^verbatim>\<open>s.rpartition(sep)\<close> and \<^verbatim>\<open>s.split(sep)\<close> for a one-character
  separator.\<close>

definition py_partition :: "char \<Rightarrow> string \<Rightarrow> string \<times> string \<times> string" where
  "py_partition sep s =
     (if sep \<in> set s
      then (takeWhile (\<lambda>c. c \<noteq> sep) s, [sep], tl (dropWhile (\<lambda>c. c \<noteq> sep) s))
      else (s, [], []))"

definition py_rpartition :: "char \<Rightarrow> string \<Rightarrow> string \<times> string \<times> string" where
  "py_rpartition sep s =
     (if sep \<in> set s
      then (rev (tl (dropWhile (\<lambda>c. c \<noteq> sep) (rev s))), [sep],
            rev (takeWhile (\<lambda>c. c \<noteq> sep) (rev s)))
      else ([], [], s))"

fun py_split :: "char \<Rightarrow> string \<Rightarrow> string list" where
  "py_split sep [] = [[]]"
| "py_split sep (c # cs) =
     (if c = sep then [] # py_split sep cs
      else (c # hd (py_split sep cs)) # tl (py_split sep cs))"

section \<open>\<^verbatim>\<open>str.format\<close> with one positional integer argument\<close>

text \<open>
  \<^verbatim>\<open>path_pattern.format(i)\<close> walks the pattern from left to right (CPython's
  \<^verbatim>\<open>MarkupIterator_next\<close> and \<^verbatim>\<open>parse_field\<close>): literal text is copied, \<^verbatim>\<open>{{\<close> and \<^verbatim>\<open>}}\<close>
  stand for one brace, and \<^verbatim>\<open>{name}\<close> is a replacement field.  An empty name numbers the
  fields automatically, a decimal name is an index into the positional arguments (here
  the one argument \<open>i\<close>), any other name is looked up among the keyword arguments (there
  are none).  The first error met aborts the call.  A field that has a conversion
  (\<^verbatim>\<open>!\<close>), a format specification (\<^verbatim>\<open>:\<close>), an attribute (\<^verbatim>\<open>.\<close>) or an index (\<^verbatim>\<open>[\<close>) is
  outside this model: \<open>py_format\<close> answers \<open>Unmodelled\<close> there.
\<close>

datatype an_state = ANS_INIT | ANS_AUTO | ANS_MANUAL

definition PY_SSIZE_T_MAX :: int where
  "PY_SSIZE_T_MAX = 2 ^ 63 - 1"

fun get_integer_loop :: "int \<Rightarrow> string \<Rightarrow> py_error + int option" where
  "get_integer_loop acc [] = Inr (Some acc)"
| "get_integer_loop acc (c # cs) =
     (if \<not> is_decimal c then Inr None
      else if acc > (PY_SSIZE_T_MAX - digitval c) div 10
      then Inl (ValueError ''Too many decimal digits in format string'')
      else get_integer_loop (acc * 10 + digitval c) cs)"

definition get_integer :: "string \<Rightarrow> py_error + int option" where
  "get_integer s = (if s = [] then Inr None else get_integer_loop 0 s)"

text \<open>\<^verbatim>\<open>field_name_split\<close>: the index a field name denotes (\<open>None\<close> for a keyword), with
  the automatic numbering state and counter after the field.\<close>

definition field_name_split ::
  "an_state \<Rightarrow> int \<Rightarrow> string \<Rightarrow> py_error + (int option \<times> an_state \<times> int)" where
  "field_name_split st k name =
     (case get_integer name of
        Inl e \<Rightarrow> Inl e
      | Inr first_idx \<Rightarrow>
          (let field_name_is_empty = (name = []);
               using_numeric_index = (field_name_is_empty \<or> first_idx \<noteq> None);
               st' = (if st = ANS_INIT \<and> using_numeric_index
                      then (if field_name_is_empty then ANS_AUTO else ANS_MANUAL) else st)
           in if using_numeric_index \<and> st' = ANS_MANUAL \<and> field_name_is_empty
              then Inl (ValueError
                ''cannot switch from manual field specification to automatic field numbering'')
              else if using_numeric_index \<and> st' = ANS_AUTO \<and> \<not> field_name_is_empty
              then Inl (ValueError
                ''cannot switch from automatic field numbering to manual field specification'')
              else if field_name_is_empty then Inr (Some k, st', k + 1)
              else Inr (first_idx, st', k)))"

text \<open>\<^verbatim>\<open>get_field_object\<close> and the rendering \<^verbatim>\<open>format(i, '')\<close>, for the argument tuple
  \<^verbatim>\<open>(i,)\<close>.\<close>

definition render_field ::
  "an_state \<Rightarrow> int \<Rightarrow> int \<Rightarrow> string \<Rightarrow> py_error + (string \<times> an_state \<times> int)" where
  "render_field st k i name =
     (case field_name_split st k name of
        Inl e \<Rightarrow> Inl e
      | Inr (None, st', k') \<Rightarrow> Inl (KeyError name)
      | Inr (Some idx, st', k') \<Rightarrow>
          (if idx < 1 then Inr (str_int i, st', k')
           else Inl (IndexError (''Replacement index '' @ str_int idx @
                  '' out of range for positional args tuple''))))"

definition emit :: "string \<Rightarrow> py_error + string \<Rightarrow> py_error + string" where
  "emit s r = (case r of Inl e \<Rightarrow> Inl e | Inr t \<Rightarrow> Inr (s @ t))"

fun fmt_text :: "an_state \<Rightarrow> int \<Rightarrow> int \<Rightarrow> string \<Rightarrow> py_error + string"
  and fmt_field :: "an_state \<Rightarrow> int \<Rightarrow> int \<Rightarrow> string \<Rightarrow> string \<Rightarrow> py_error + string" where
  "fmt_text st k i [] = Inr []"
| "fmt_text st k i (c # cs) =
     (if c = CHR ''{'' then
        (case cs of
           [] \<Rightarrow> Inl (ValueError (''Single '' @ squote @ ''{'' @ squote @
                        '' encountered in format string''))
         | d # ds \<Rightarrow> if d = CHR ''{'' then emit ''{'' (fmt_text st k i ds)
                     else fmt_field st k i [] cs)
      else if c = CHR ''}'' then
        (case cs of
           [] \<Rightarrow> Inl (ValueError (''Single '' @ squote @ ''}'' @ squote @
                        '' encountered in format string''))
         | d # ds \<Rightarrow> if d = CHR ''}'' then emit ''}'' (fmt_text st k i ds)
                     else Inl (ValueError (''Single '' @ squote @ ''}'' @ squote @
                        '' encountered in format string'')))
      else emit [c] (fmt_text st k i cs))"
| "fmt_field st k i name [] =
     Inl (ValueError (''expected '' @ squote @ ''}'' @ squote @ '' before end of string''))"
| "fmt_field st k i name (c # cs) =
     (if c = CHR ''{'' then
        Inl (ValueError (''unexpected '' @ squote @ ''{'' @ squote @ '' in field name''))
      else if c = CHR ''['' \<or> c = CHR ''.'' \<or> c = CHR '':'' \<or> c = CHR ''!'' then Inl Unmodelled
      else if c = CHR ''}'' then
        (case render_field st k i name of
           Inl e \<Rightarrow> Inl e
         | Inr (s, st', k') \<Rightarrow> emit s (fmt_text st' k' i cs))
      else fmt_field st k i (name @ [c]) cs)"

definition py_format :: "string \<Rightarrow> int \<Rightarrow> py_error + string" where
  "py_format pattern i = fmt_text ANS_INIT 0 i pattern"

section \<open>\<^verbatim>\<open>ipaddress.ip_address\<close>: which strings are addresses\<close>

text \<open>
  \<^verbatim>\<open>urlsplit\<close> validates a bracketed host with \<^verbatim>\<open>ipaddress.ip_address\<close>.  Only whether the
  constructors \<^verbatim>\<open>IPv4Address\<close> and \<^verbatim>\<open>IPv6Address\<close> accept a string matters, so each is
  modelled as a predicate that is true exactly when the constructor does not raise.
\<close>

fun int_of_decimal :: "int \<Rightarrow> string \<Rightarrow> int" where
  "int_of_decimal acc [] = acc"
| "int_of_decimal acc (c # cs) = int_of_decimal (acc * 10 + digitval c) cs"

definition parse_octet_ok :: "string \<Rightarrow> bool" where
  "parse_octet_ok octet_str =
     (octet_str \<noteq> [] \<and> list_all is_decimal octet_str \<and> length octet_str \<le> 3 \<and>
      \<not> (octet_str \<noteq> ''0'' \<and> take 1 octet_str = ''0'') \<and>
      int_of_decimal 0 octet_str \<le> 255)"

definition IPv4Address_ok :: "string \<Rightarrow> bool" where
  "IPv4Address_ok addr_str =
     (CHR ''/'' \<notin> set addr_str \<and> addr_str \<noteq> [] \<and>
      length (py_split CHR ''.'' addr_str) = 4 \<and>
      list_all parse_octet_ok (py_split CHR ''.'' addr_str))"

definition is_hex_digit :: "char \<Rightarrow> bool" where
  "is_hex_digit c = (c \<in> set ''0123456789ABCDEFabcdef'')"

definition parse_hextet_ok :: "string \<Rightarrow> bool" where
  "parse_hextet_ok hextet_str =
     (list_all is_hex_digit hextet_str \<and> length hextet_str \<le> 4 \<and> hextet_str \<noteq> [])"

text \<open>\<^verbatim>\<open>IPv6Address._ip_int_from_string\<close>.  An IPv4-style last part is replaced by two
  hextets printed with \<^verbatim>\<open>'%x'\<close>; they are always well formed and stand here as \<open>''0''\<close>.
  \<open>skip_indices\<close> lists the inner parts that are empty (the places of \<^verbatim>\<open>::\<close>).\<close>

definition skip_indices :: "string list \<Rightarrow> nat list" where
  "skip_indices parts = filter (\<lambda>i. parts ! i = []) [1..<length parts - 1]"

definition ipv6_int_from_string_ok :: "string \<Rightarrow> bool" where
  "ipv6_int_from_string_ok ip_str =
     (if ip_str = [] then False
      else let parts0 = py_split CHR '':'' ip_str in
        if length parts0 < 3 then False
        else if CHR ''.'' \<in> set (last parts0) \<and> \<not> IPv4Address_ok (last parts0) then False
        else let parts = (if CHR ''.'' \<in> set (last parts0)
                          then butlast parts0 @ [''0'', ''0''] else parts0) in
          if length parts > 9 then False
          else (case skip_indices parts of
                  [] \<Rightarrow>
                    length parts = 8 \<and> hd parts \<noteq> [] \<and> last parts \<noteq> [] \<and>
                    list_all parse_hextet_ok parts
                | [skip_index] \<Rightarrow>
                    (let parts_hi = (if hd parts = [] then skip_index - 1 else skip_index);
                         parts_lo = (if last parts = [] then length parts - skip_index - 1 - 1
                                     else length parts - skip_index - 1)
                     in \<not> (hd parts = [] \<and> parts_hi \<noteq> 0) \<and>
                        \<not> (last parts = [] \<and> parts_lo \<noteq> 0) \<and>
                        parts_hi + parts_lo \<le> 7 \<and>
                        list_all parse_hextet_ok (take parts_hi parts) \<and>
                        list_all parse_hextet_ok (drop (length parts - parts_lo) parts))
                | _ \<Rightarrow> False))"

definition IPv6Address_ok :: "string \<Rightarrow> bool" where
  "IPv6Address_ok addr_str =
     (if CHR ''/'' \<in> set addr_str then False
      else let (addr, sep, scope_id) = py_partition CHR ''%'' addr_str in
        if sep \<noteq> [] \<and> (scope_id = [] \<or> CHR ''%'' \<in> set scope_id) then False
        else ipv6_int_from_string_ok addr)"

section \<open>\<^verbatim>\<open>urllib.parse\<close>\<close>

text \<open>
  \<^verbatim>\<open>urlparse\<close> returns a named 6-tuple; \<^verbatim>\<open>hostname\<close> is a property computed from its
  \<^verbatim>\<open>netloc\<close>.  On a \<^verbatim>\<open>str\<close> argument the only exception \<^verbatim>\<open>urlparse\<close> raises is
  \<^verbatim>\<open>ValueError\<close>, which is the result \<open>None\<close> here (the caller replaces its message).
  \<^verbatim>\<open>_checknetloc\<close> never raises on code points below 256 and is left out.
\<close>

record ParseResult =
  scheme :: string
  netloc :: string
  path :: string
  params :: string
  query :: string
  fragment :: string

definition uses_netloc :: "string list" where
  "uses_netloc = [[], ''ftp'', ''http'', ''gopher'', ''nntp'', ''telnet'',
                  ''imap'', ''wais'', ''file'', ''mms'', ''https'', ''shttp'',
                  ''snews'', ''prospero'', ''rtsp'', ''rtsps'', ''rtspu'', ''rsync'',
                  ''svn'', ''svn+ssh'', ''sftp'', ''nfs'', ''git'', ''git+ssh'',
                  ''ws'', ''wss'']"

definition uses_params :: "string list" where
  "uses_params = [[], ''ftp'', ''hdl'', ''prospero'', ''http'', ''imap'',
                  ''https'', ''shttp'', ''rtsp'', ''rtsps'', ''rtspu'', ''sip'',
                  ''sips'', ''mms'', ''sftp'', ''tel'']"

definition scheme_chars :: string where
  "scheme_chars = ''abcdefghijklmnopqrstuvwxyzABCDEFGHIJKLMNOPQRSTUVWXYZ0123456789+-.''"

definition c0_control_or_space :: "char \<Rightarrow> bool" where
  "c0_control_or_space c = ((of_char c :: nat) \<le> 32)"

definition unsafe_url_byte :: "char \<Rightarrow> bool" where
  "unsafe_url_byte c = (c = CHR 0x09 \<or> c = CHR 0x0D \<or> c = CHR 0x0A)"

text \<open>\<^verbatim>\<open>url.split(sep, 1)\<close> when \<open>sep\<close> occurs in \<open>url\<close>.\<close>

definition split1 :: "char \<Rightarrow> string \<Rightarrow> string \<times> string" where
  "split1 sep url = (takeWhile (\<lambda>c. c \<noteq> sep) url, tl (dropWhile (\<lambda>c. c \<noteq> sep) url))"

text \<open>The scheme test of \<^verbatim>\<open>urlsplit\<close>: \<^verbatim>\<open>i = url.find(':')\<close>, \<^verbatim>\<open>i > 0\<close>, the first character an
  ASCII letter and every character before the colon in \<^verbatim>\<open>scheme_chars\<close>.\<close>

definition split_scheme :: "string \<Rightarrow> string \<times> string" where
  "split_scheme url =
     (let front = takeWhile (\<lambda>c. c \<noteq> CHR '':'') url
      in if CHR '':'' \<in> set url \<and> front \<noteq> [] \<and> is_ascii_alpha (hd url) \<and>
            list_all (\<lambda>c. c \<in> set scheme_chars) front
         then (map py_lower front, tl (dropWhile (\<lambda>c. c \<noteq> CHR '':'') url))
         else ([], url))"

definition netloc_delim :: "char \<Rightarrow> bool" where
  "netloc_delim c = (c = CHR ''/'' \<or> c = CHR ''?'' \<or> c = CHR ''#'')"

definition splitnetloc :: "string \<Rightarrow> nat \<Rightarrow> string \<times> string" where
  "splitnetloc url start =
     (takeWhile (\<lambda>c. \<not> netloc_delim c) (drop start url),
      dropWhile (\<lambda>c. \<not> netloc_delim c) (drop start url))"

text \<open>\<^verbatim>\<open>_check_bracketed_host\<close>: true when it returns without raising.  The first branch
  is the match of \<^verbatim>\<open>\Av[a-fA-F0-9]+\..+\Z\<close>.\<close>

definition check_bracketed_host :: "string \<Rightarrow> bool" where
  "check_bracketed_host host =
     (if take 1 host = ''v''
      then (let digits = takeWhile is_hex_digit (drop 1 host);
                rest = dropWhile is_hex_digit (drop 1 host)
            in digits \<noteq> [] \<and> take 1 rest = ''.'' \<and> drop 1 rest \<noteq> [] \<and>
               CHR 0x0A \<notin> set (drop 1 rest))
      else \<not> IPv4Address_ok host \<and> IPv6Address_ok host)"

definition bracketed_host :: "string \<Rightarrow> string" where
  "bracketed_host nl =
     fst (py_partition CHR '']'' (snd (snd (py_partition CHR ''['' nl))))"

definition urlsplit :: "string \<Rightarrow> (string \<times> string \<times> string \<times> string \<times> string) option" where
  "urlsplit url0 =
     (let url1 = filter (\<lambda>c. \<not> unsafe_url_byte c) (dropWhile c0_control_or_space url0);
          (sch, url2) = split_scheme url1;
          (nloc, url3) = (if take 2 url2 = ''//'' then splitnetloc url2 2 else ([], url2))
      in if (CHR ''['' \<in> set nloc \<and> CHR '']'' \<notin> set nloc) \<or>
            (CHR '']'' \<in> set nloc \<and> CHR ''['' \<notin> set nloc)
         then None
         else if CHR ''['' \<in> set nloc \<and> CHR '']'' \<in> set nloc \<and>
                 \<not> check_bracketed_host (bracketed_host nloc)
         then None
         else (let (url4, frag) =
                     (if CHR ''#'' \<in> set url3 then split1 CHR ''#'' url3 else (url3, []));
                   (url5, qry) =
                     (if CHR ''?'' \<in> set url4 then split1 CHR ''?'' url4 else (url4, []))
               in Some (sch, nloc, url5, qry, frag)))"

text \<open>\<^verbatim>\<open>_splitparams\<close>: the parameters start at the first \<^verbatim>\<open>;\<close> of the last path segment.\<close>

definition splitparams :: "string \<Rightarrow> string \<times> string" where
  "splitparams url =
     (if CHR ''/'' \<in> set url
      then (let last_segment = rev (takeWhile (\<lambda>c. c \<noteq> CHR ''/'') (rev url));
                upto_slash = take (length url - length last_segment) url
            in if CHR '';'' \<in> set last_segment
               then (upto_slash @ takeWhile (\<lambda>c. c \<noteq> CHR '';'') last_segment,
                     tl (dropWhile (\<lambda>c. c \<noteq> CHR '';'') last_segment))
               else (url, []))
      else if CHR '';'' \<in> set url then split1 CHR '';'' url
      else (butlast url, url))"

definition urlparse :: "string \<Rightarrow> ParseResult option" where
  "urlparse url =
     (case urlsplit url of
        None \<Rightarrow> None
      | Some (sch, nloc, url', qry, frag) \<Rightarrow>
          (let (url'', prms) =
                 (if sch \<in> set uses_params \<and> CHR '';'' \<in> set url'
                  then splitparams url' else (url', []))
           in Some \<lparr>scheme = sch, netloc = nloc, path = url'', params = prms,
                     query = qry, fragment = frag\<rparr>))"

text \<open>The properties \<^verbatim>\<open>_hostinfo\<close> and \<^verbatim>\<open>hostname\<close> of a parse result.\<close>

definition hostinfo :: "ParseResult \<Rightarrow> string \<times> string option" where
  "hostinfo pr =
     (let (_, _, hinfo) = py_rpartition CHR ''@'' (netloc pr);
          (_, have_open_br, bracketed) = py_partition CHR ''['' hinfo;
          (host, port) =
            (if have_open_br \<noteq> []
             then (let (h, _, p) = py_partition CHR '']'' bracketed;
                       (_, _, p') = py_partition CHR '':'' p
                   in (h, p'))
             else (let (h, _, p) = py_partition CHR '':'' hinfo in (h, p)))
      in (host, if port = [] then None else Some port))"

definition hostname :: "ParseResult \<Rightarrow> string option" where
  "hostname pr =
     (let h = fst (hostinfo pr)
      in if h = [] then None
         else (let (h', percent, zone) = py_partition CHR ''%'' h
               in Some (map py_lower h' @ percent @ zone)))"

definition urlunsplit :: "string \<times> string \<times> string \<times> string \<times> string \<Rightarrow> string" where
  "urlunsplit components =
     (let (sch, nloc, url, qry, frag) = components;
          url1 = (if nloc \<noteq> [] \<or> (sch \<noteq> [] \<and> sch \<in> set uses_netloc) \<or>
                     take 2 url = ''//''
                  then ''//'' @ nloc @
                       (if url \<noteq> [] \<and> take 1 url \<noteq> ''/'' then ''/'' @ url else url)
                  else url);
          url2 = (if sch \<noteq> [] then sch @ '':'' @ url1 else url1);
          url3 = (if qry \<noteq> [] then url2 @ ''?'' @ qry else url2);
          url4 = (if frag \<noteq> [] then url3 @ ''#'' @ frag else url3)
      in url4)"

definition urlunparse :: "ParseResult \<Rightarrow> string" where
  "urlunparse pr =
     (let url = (if params pr \<noteq> [] then path pr @ '';'' @ params pr else path pr)
      in urlunsplit (scheme pr, netloc pr, url, query pr, fragment pr))"

section \<open>The random source\<close>

text \<open>
  The program draws all its randomness from Python's process-wide generator
  (\<^verbatim>\<open>random.choice\<close>, \<^verbatim>\<open>random.choices\<close>, \<^verbatim>\<open>random.shuffle\<close>).  The generator is
  modelled as an explicit stream of natural numbers that is threaded through every
  call: \<open>randbelow n\<close> consumes one number and reduces it below \<open>n\<close>, so every
  value in \<open>0..<n\<close> is a possible outcome, and a theorem that holds for every stream
  holds for every run of the program.
\<close>

type_synonym rng = "nat \<Rightarrow> nat"

definition randbelow :: "nat \<Rightarrow> rng \<Rightarrow> nat \<times> rng" where
  "randbelow n g = (g 0 mod n, (\<lambda>k. g (Suc k)))"

definition zero_rng :: rng where
  "zero_rng = (\<lambda>k. 0)"

definition count_rng :: rng where
  "count_rng = (\<lambda>k. k)"

section \<open>The TLD selector\<close>

text \<open>\<^verbatim>\<open>random.choice(seq)\<close> raises \<^verbatim>\<open>IndexError\<close> on an empty sequence;
  \<^verbatim>\<open>random.choices(population, k=k)\<close> draws \<open>k\<close> times with replacement.\<close>

definition choice :: "'a list \<Rightarrow> rng \<Rightarrow> py_error + ('a \<times> rng)" where
  "choice seq g =
     (if length seq = 0 then Inl (IndexError ''Cannot choose from an empty sequence'')
      else (let (r, g') = randbelow (length seq) g in Inr (seq ! r, g')))"

fun choices :: "'a list \<Rightarrow> nat \<Rightarrow> rng \<Rightarrow> 'a list \<times> rng" where
  "choices population 0 g = ([], g)"
| "choices population (Suc k) g =
     (let (r, g') = randbelow (length population) g;
          (rest, g'') = choices population k g'
      in (population ! r # rest, g''))"

definition default_tlds :: "string list" where
  "default_tlds = [''com'', ''net'', ''org'', ''info'', ''biz'', ''co'', ''us'', ''uk'']"

definition ascii_lowercase :: string where
  "ascii_lowercase = ''abcdefghijklmnopqrstuvwxyz''"

text \<open>\<^verbatim>\<open>generate_random_tld(common_tlds=None)\<close>.  The coin is tossed first; the length
  \<^verbatim>\<open>random.choice([2, 3])\<close> is drawn before the letters.\<close>

definition generate_random_tld :: "string list option \<Rightarrow> rng \<Rightarrow> py_error + (string \<times> rng)" where
  "generate_random_tld common_tlds_arg g =
     (let common_tlds = (case common_tlds_arg of None \<Rightarrow> default_tlds | Some l \<Rightarrow> l)
      in case choice [True, False] g of
           Inl e \<Rightarrow> Inl e
         | Inr (coin, g1) \<Rightarrow>
             if coin then choice common_tlds g1
             else (case choice [2, 3] g1 of
                     Inl e \<Rightarrow> Inl e
                   | Inr (k, g2) \<Rightarrow> Inr (choices ascii_lowercase k g2)))"

section \<open>The link generator\<close>

text \<open>
  The body of the \<^verbatim>\<open>for i in range(1, num_links + 1)\<close> loop of \<^verbatim>\<open>generate_links\<close>, over
  the list of the indices still to come; \<open>acc\<close> is \<^verbatim>\<open>generated_links\<close>.  An exception of
  \<^verbatim>\<open>path_pattern.format(i)\<close> leaves the function at once.
\<close>

fun links_loop ::
  "ParseResult \<Rightarrow> string \<Rightarrow> string \<Rightarrow> int list \<Rightarrow> rng \<Rightarrow> string list \<Rightarrow>
     py_error + (string list \<times> rng)" where
  "links_loop parsed_url base_hostname path_pattern [] g acc = Inr (acc, g)"
| "links_loop parsed_url base_hostname path_pattern (i # is) g acc =
     (case py_format path_pattern i of
        Inl e \<Rightarrow> Inl e
      | Inr new_path \<Rightarrow>
          (case generate_random_tld None g of
             Inl e \<Rightarrow> Inl e
           | Inr (random_tld, g') \<Rightarrow>
               (let new_hostname = base_hostname @ ''.'' @ random_tld;
                    new_url = parsed_url\<lparr>netloc := new_hostname, path := new_path\<rparr>
                in links_loop parsed_url base_hostname path_pattern is g'
                     (acc @ [urlunparse new_url]))))"

text \<open>
  \<^verbatim>\<open>generate_links(base_url, num_links, path_pattern)\<close>.  A \<^verbatim>\<open>ValueError\<close> of \<^verbatim>\<open>urlparse\<close> is
  caught and raised again with the message \<^verbatim>\<open>Invalid base URL: <base_url>\<close>.  When
  \<^verbatim>\<open>parsed_url.hostname\<close> is \<^verbatim>\<open>None\<close>, the call \<^verbatim>\<open>.split('.')\<close> raises
  \<^verbatim>\<open>AttributeError\<close>.  The logging calls have no effect on the result and are left out.
\<close>

definition generate_links ::
  "string \<Rightarrow> int \<Rightarrow> string \<Rightarrow> rng \<Rightarrow> py_error + (string list \<times> rng)" where
  "generate_links base_url num_links path_pattern g =
     (case urlparse base_url of
        None \<Rightarrow> Inl (ValueError (''Invalid base URL: '' @ base_url))
      | Some parsed_url \<Rightarrow>
          (case hostname parsed_url of
             None \<Rightarrow>
               Inl (AttributeError (squote @ ''NoneType'' @ squote @
                      '' object has no attribute '' @ squote @ ''split'' @ squote))
           | Some h \<Rightarrow>
               (case py_split CHR ''.'' h of
                  [] \<Rightarrow> Inl (IndexError ''list index out of range'')
                | base_hostname # _ \<Rightarrow>
                    links_loop parsed_url base_hostname path_pattern [1..num_links] g [])))"

section \<open>The randomizer\<close>

text \<open>
  \<^verbatim>\<open>random.shuffle(x)\<close> of CPython 3.11:
  \<^verbatim>\<open>for i in reversed(range(1, len(x))): j = randbelow(i + 1); x[i], x[j] = x[j], x[i]\<close>.
  The first argument of \<open>shuffle_loop\<close> is the loop index \<open>i\<close>, counting down to 1.
\<close>

fun shuffle_loop :: "nat \<Rightarrow> 'a list \<Rightarrow> rng \<Rightarrow> 'a list \<times> rng" where
  "shuffle_loop 0 xs g = (xs, g)"
| "shuffle_loop (Suc k) xs g =
     (let i = Suc k;
          (j, g') = randbelow (i + 1) g
      in shuffle_loop k (xs[i := xs ! j, j := xs ! i]) g')"

definition shuffle :: "'a list \<Rightarrow> rng \<Rightarrow> 'a list \<times> rng" where
  "shuffle xs g = shuffle_loop (length xs - 1) xs g"

text \<open>\<^verbatim>\<open>randomize_and_generate_links\<close>, and the lines \<^verbatim>\<open>main\<close> prints for parsed
  arguments.\<close>

definition randomize_and_generate_links ::
  "string \<Rightarrow> int \<Rightarrow> string \<Rightarrow> rng \<Rightarrow> py_error + (string list \<times> rng)" where
  "randomize_and_generate_links base_url num_links path_pattern g =
     (case generate_links base_url num_links path_pattern g of
        Inl e \<Rightarrow> Inl e
      | Inr (generated_links, g') \<Rightarrow> Inr (shuffle generated_links g'))"

definition main_output :: "string \<Rightarrow> int \<Rightarrow> string \<Rightarrow> rng \<Rightarrow> py_error + string list" where
  "main_output base_url num_links path_pattern g =
     (case randomize_and_generate_links base_url num_links path_pattern g of
        Inl e \<Rightarrow> Inl e
      | Inr (randomized_links, g') \<Rightarrow>
          Inr (''Randomized and Generated Links:'' # randomized_links))"

section \<open>Vocabulary of the specification\<close>

text \<open>
  A base URL is valid when \<^verbatim>\<open>urlparse\<close> accepts it and the result has a hostname.  A
  path pattern has a single placeholder when it is literal text without braces around
  one \<^verbatim>\<open>{}\<close>; \<open>substitute\<close> puts the decimal index in its place.  A TLD value is what
  the TLD selector can produce from the default candidates.
\<close>

definition valid_base_url :: "string \<Rightarrow> bool" where
  "valid_base_url base_url =
     (case urlparse base_url of None \<Rightarrow> False | Some pr \<Rightarrow> hostname pr \<noteq> None)"

definition parsed_hostname :: "string \<Rightarrow> string" where
  "parsed_hostname base_url =
     (case urlparse base_url of
        None \<Rightarrow> []
      | Some pr \<Rightarrow> (case hostname pr of None \<Rightarrow> [] | Some h \<Rightarrow> h))"

definition first_label :: "string \<Rightarrow> string" where
  "first_label h = takeWhile (\<lambda>c. c \<noteq> CHR ''.'') h"

definition top_label :: "string \<Rightarrow> string" where
  "top_label h = rev (takeWhile (\<lambda>c. c \<noteq> CHR ''.'') (rev h))"

definition is_brace :: "char \<Rightarrow> bool" where
  "is_brace c = (c = CHR ''{'' \<or> c = CHR ''}'')"

definition brace_free :: "string \<Rightarrow> bool" where
  "brace_free s = list_all (\<lambda>c. \<not> is_brace c) s"

definition pattern_prefix :: "string \<Rightarrow> string" where
  "pattern_prefix p = takeWhile (\<lambda>c. \<not> is_brace c) p"

definition pattern_suffix :: "string \<Rightarrow> string" where
  "pattern_suffix p = drop 2 (dropWhile (\<lambda>c. \<not> is_brace c) p)"

definition single_placeholder :: "string \<Rightarrow> bool" where
  "single_placeholder p =
     (take 2 (dropWhile (\<lambda>c. \<not> is_brace c) p) = ''{}'' \<and> brace_free (pattern_suffix p))"

definition substitute :: "string \<Rightarrow> int \<Rightarrow> string" where
  "substitute p i = pattern_prefix p @ str_int i @ pattern_suffix p"

definition tld_value :: "string \<Rightarrow> bool" where
  "tld_value t =
     (t \<in> set default_tlds \<or>
      ((length t = 2 \<or> length t = 3) \<and> list_all (\<lambda>c. c \<in> set ascii_lowercase) t))"

text \<open>The links of a result, without the state of the random source.\<close>

definition links_of :: "py_error + (string list \<times> rng) \<Rightarrow> py_error + string list" where
  "links_of r = (case r of Inl e \<Rightarrow> Inl e | Inr (links, g) \<Rightarrow> Inr links)"

text \<open>A pattern whose first two fields are both the automatically numbered \<^verbatim>\<open>{}\<close>.\<close>

definition two_auto_placeholders :: "string \<Rightarrow> bool" where
  "two_auto_placeholders p =
     (take 2 (dropWhile (\<lambda>c. \<not> is_brace c) p) = ''{}'' \<and>
      take 2 (dropWhile (\<lambda>c. \<not> is_brace c) (pattern_suffix p)) = ''{}'')"

text \<open>The link the generator builds from a parse result, a base hostname, a path and a
  TLD; \<open>generated_link\<close> is that link for a base URL.\<close>

definition link_for :: "ParseResult \<Rightarrow> string \<Rightarrow> string \<Rightarrow> string \<Rightarrow> string" where
  "link_for parsed_url base_hostname new_path tld =
     urlunparse (parsed_url\<lparr>netloc := base_hostname @ ''.'' @ tld, path := new_path\<rparr>)"

definition generated_link :: "string \<Rightarrow> string \<Rightarrow> string \<Rightarrow> string" where
  "generated_link base_url new_path tld =
     (case urlparse base_url of
        None \<Rightarrow> []
      | Some pr \<Rightarrow> link_for pr (first_label (parsed_hostname base_url)) new_path tld)"

text \<open>A hostname without colon and brackets: it was not taken from a bracketed IP
  literal, and \<^verbatim>\<open>urlparse\<close> reads no port into a network location made from it.\<close>

definition host_plain :: "string \<Rightarrow> bool" where
  "host_plain h = (CHR '':'' \<notin> set h \<and> CHR ''['' \<notin> set h \<and> CHR '']'' \<notin> set h)"

text \<open>A hostname without brackets: \<^verbatim>\<open>urlparse\<close> accepts a network location made from it.\<close>

definition host_unbracketed :: "string \<Rightarrow> bool" where
  "host_unbracketed h = (CHR ''['' \<notin> set h \<and> CHR '']'' \<notin> set h)"

text \<open>A string without tab, carriage return and line feed, which \<^verbatim>\<open>urlsplit\<close> removes.\<close>

definition url_safe :: "string \<Rightarrow> bool" where
  "url_safe s = list_all (\<lambda>c. \<not> unsafe_url_byte c) s"

text \<open>A path (or path pattern) that \<^verbatim>\<open>urlparse\<close> reads back unchanged: it starts with a
  slash and has no question mark, hash, semicolon, tab, carriage return or line feed.\<close>

definition clean_path :: "string \<Rightarrow> bool" where
  "clean_path p =
     (take 1 p = ''/'' \<and> CHR ''?'' \<notin> set p \<and> CHR ''#'' \<notin> set p \<and> CHR '';'' \<notin> set p \<and>
      url_safe p)"

text \<open>The path component \<^verbatim>\<open>urlparse\<close> finds in a link.\<close>

definition url_path :: "string \<Rightarrow> string option" where
  "url_path link = (case urlparse link of None \<Rightarrow> None | Some q \<Rightarrow> Some (path q))"

section \<open>Auxiliary notions for the proofs\<close>

text \<open>
  Character classes, the invariant of a parse result, and the pieces \<^verbatim>\<open>urlunparse\<close>
  puts together.  None of them is part of the program.
\<close>

definition is_upper :: "char \<Rightarrow> bool" where
  "is_upper c = ((65 \<le> (of_char c :: nat) \<and> (of_char c :: nat) \<le> 90) \<or>
     (192 \<le> (of_char c :: nat) \<and> (of_char c :: nat) \<le> 222 \<and> (of_char c :: nat) \<noteq> 215))"

text \<open>Characters that lowering neither produces nor changes.\<close>

definition caseless :: "char \<Rightarrow> bool" where
  "caseless d = ((of_char d :: nat) < 65 \<or> (90 < (of_char d :: nat) \<and> (of_char d :: nat) < 97) \<or>
     (122 < (of_char d :: nat) \<and> (of_char d :: nat) < 192))"

definition is_lower_letter :: "char \<Rightarrow> bool" where
  "is_lower_letter c = (97 \<le> (of_char c :: nat) \<and> (of_char c :: nat) \<le> 122)"

definition scheme_ok :: "string \<Rightarrow> bool" where
  "scheme_ok s = (s = [] \<or>
     (is_ascii_alpha (hd s) \<and> list_all (\<lambda>c. c \<in> set scheme_chars) s \<and> map py_lower s = s))"

text \<open>What \<^verbatim>\<open>urlparse\<close> guarantees about the components it returns.\<close>

definition wf_parse :: "ParseResult \<Rightarrow> bool" where
  "wf_parse pr =
     (scheme_ok (scheme pr) \<and>
      list_all (\<lambda>c. \<not> netloc_delim c) (netloc pr) \<and> url_safe (netloc pr) \<and>
      list_all (\<lambda>c. \<not> netloc_delim c) (params pr) \<and> url_safe (params pr) \<and>
      CHR ''#'' \<notin> set (query pr) \<and> url_safe (query pr) \<and>
      url_safe (fragment pr) \<and>
      (scheme pr \<in> set uses_params \<or> params pr = []))"

fun norm_host :: "string \<Rightarrow> string" where
  "norm_host [] = []"
| "norm_host (c # cs) = (if c = CHR ''%'' then c # cs else py_lower c # norm_host cs)"

definition scheme_part :: "string \<Rightarrow> string" where
  "scheme_part s = (if s \<noteq> [] then s @ '':'' else [])"

definition path_part :: "ParseResult \<Rightarrow> string" where
  "path_part x =
     (let u = (if params x \<noteq> [] then path x @ '';'' @ params x else path x)
      in if u \<noteq> [] \<and> take 1 u \<noteq> ''/'' then ''/'' @ u else u)"

definition tail_part :: "ParseResult \<Rightarrow> string" where
  "tail_part x =
     path_part x @ (if query x \<noteq> [] then ''?'' @ query x else []) @
     (if fragment x \<noteq> [] then ''#'' @ fragment x else [])"

definition sep_part :: "char \<Rightarrow> string \<Rightarrow> string" where
  "sep_part sep b = (if b \<noteq> [] then sep # b else [])"

definition query_part :: "ParseResult \<Rightarrow> string" where
  "query_part x = sep_part CHR ''?'' (query x)"

definition fragment_part :: "ParseResult \<Rightarrow> string" where
  "fragment_part x = sep_part CHR ''#'' (fragment x)"

definition decimal_digits :: string where
  "decimal_digits = ''0123456789''"

definition is_digit_or_minus :: "char \<Rightarrow> bool" where
  "is_digit_or_minus c = (c = CHR ''-'' \<or> c \<in> set decimal_digits)"

section \<open>Properties of the randomizer\<close>

lemma randbelow_less: "0 < n \<Longrightarrow> fst (randbelow n g) < n"
  by (simp add: randbelow_def)

lemma shuffle_loop_length: "length (fst (shuffle_loop k xs g)) = length xs"
  by (induction k arbitrary: xs g) (simp_all add: Let_def split: prod.splits)

lemma shuffle_loop_mset:
  "k < length xs \<Longrightarrow> mset (fst (shuffle_loop k xs g)) = mset xs"
proof (induction k arbitrary: xs g)
  case 0
  then show ?case by simp
next
  case (Suc k)
  obtain j g' where jg: "randbelow (Suc k + 1) g = (j, g')"
    by (cases "randbelow (Suc k + 1) g")
  have "j < Suc k + 1"
    using randbelow_less [of "Suc k + 1" g] jg by simp
  with Suc.prems have j: "j < length xs" by simp
  let ?ys = "xs[Suc k := xs ! j, j := xs ! Suc k]"
  have "mset ?ys = mset xs"
    using Suc.prems j by (simp add: mset_swap)
  moreover have "mset (fst (shuffle_loop k ?ys g')) = mset ?ys"
    using Suc.prems by (intro Suc.IH) simp
  ultimately show ?case
    using jg by (simp add: Let_def)
qed

lemma shuffle_mset: "mset (fst (shuffle xs g)) = mset xs"
proof (cases xs)
  case Nil
  then show ?thesis by (simp add: shuffle_def)
next
  case (Cons x xs')
  then show ?thesis by (simp add: shuffle_def shuffle_loop_mset)
qed

lemma shuffle_short: "length xs \<le> 1 \<Longrightarrow> fst (shuffle xs g) = xs"
proof -
  assume "length xs \<le> 1"
  then have "length xs - 1 = 0" by simp
  then show ?thesis by (simp add: shuffle_def)
qed

text \<open>
  Claim C4.  For every list \<open>L\<close> and every state of the random source, the shuffle
  returns a permutation of \<open>L\<close>: output and input are equal as multisets, have the same
  length, every value occurs in the output exactly as often as in the input, and a list
  of at most one element is returned unchanged.
\<close>

theorem C4_shuffle_is_permutation:
  "mset (fst (shuffle L g)) = mset L \<and>
   length (fst (shuffle L g)) = length L \<and>
   (\<forall>x. count_list (fst (shuffle L g)) x = count_list L x) \<and>
   (length L \<le> 1 \<longrightarrow> fst (shuffle L g) = L)"
proof -
  have m: "mset (fst (shuffle L g)) = mset L"
    by (rule shuffle_mset)
  have c: "\<And>x. count_list (fst (shuffle L g)) x = count_list L x"
    using m by (metis count_mset)
  have l: "length (fst (shuffle L g)) = length L"
    using m by (metis size_mset)
  show ?thesis
    using m c l shuffle_short [of L g] by blast
qed

theorem C4_shuffle_is_permutation_witness:
  "length [''a''] \<le> 1 \<and> fst (shuffle [''a''] zero_rng) = [''a''] \<and>
   mset (fst (shuffle [''x'', ''y'', ''z''] count_rng)) = mset [''x'', ''y'', ''z''] \<and>
   length (fst (shuffle [''x'', ''y'', ''z''] count_rng)) = 3"
  using C4_shuffle_is_permutation [of "[''a'']" zero_rng]
    C4_shuffle_is_permutation [of "[''x'', ''y'', ''z'']" count_rng]
  by simp

section \<open>Properties of the format model\<close>

lemma emit_Nil [simp]: "emit [] r = r"
  by (simp add: emit_def split: sum.splits)

lemma emit_emit [simp]: "emit s (emit t r) = emit (s @ t) r"
  by (simp add: emit_def split: sum.splits)

lemma emit_Inr [simp]: "emit s (Inr t) = Inr (s @ t)"
  by (simp add: emit_def)

lemma emit_Inl [simp]: "emit s (Inl e) = Inl e"
  by (simp add: emit_def)

lemma fmt_text_literal:
  "brace_free pre \<Longrightarrow> fmt_text st k i (pre @ rest) = emit pre (fmt_text st k i rest)"
proof (induction pre)
  case Nil
  then show ?case by simp
next
  case (Cons c pre)
  then have c: "c \<noteq> CHR ''{''" "c \<noteq> CHR ''}''" and pre: "brace_free pre"
    by (auto simp: brace_free_def is_brace_def)
  show ?case
    using c Cons.IH [OF pre] by simp
qed

lemma fmt_text_brace_free: "brace_free s \<Longrightarrow> fmt_text st k i s = Inr s"
  using fmt_text_literal [of s st k i "[]"] by simp

lemma render_first_auto: "render_field ANS_INIT 0 i [] = Inr (str_int i, ANS_AUTO, 1)"
  by (simp add: render_field_def field_name_split_def get_integer_def)

lemma render_second_auto:
  "render_field ANS_AUTO 1 i [] =
     Inl (IndexError ''Replacement index 1 out of range for positional args tuple'')"
proof -
  have "str_int 1 = ''1''" by code_simp
  then show ?thesis
    by (simp add: render_field_def field_name_split_def get_integer_def)
qed

lemma fmt_text_first_field:
  "fmt_text ANS_INIT 0 i (''{}'' @ rest) = emit (str_int i) (fmt_text ANS_AUTO 1 i rest)"
  by (simp add: render_first_auto)

lemma fmt_text_second_field:
  "fmt_text ANS_AUTO 1 i (''{}'' @ rest) =
     Inl (IndexError ''Replacement index 1 out of range for positional args tuple'')"
  by (simp add: render_second_auto)

lemma pattern_split:
  "take 2 (dropWhile (\<lambda>c. \<not> is_brace c) p) = ''{}'' \<Longrightarrow>
   p = pattern_prefix p @ ''{}'' @ pattern_suffix p"
proof -
  assume a: "take 2 (dropWhile (\<lambda>c. \<not> is_brace c) p) = ''{}''"
  have "p = takeWhile (\<lambda>c. \<not> is_brace c) p @ dropWhile (\<lambda>c. \<not> is_brace c) p"
    by simp
  also have "dropWhile (\<lambda>c. \<not> is_brace c) p =
      take 2 (dropWhile (\<lambda>c. \<not> is_brace c) p) @ drop 2 (dropWhile (\<lambda>c. \<not> is_brace c) p)"
    by simp
  finally show ?thesis
    using a by (simp add: pattern_prefix_def pattern_suffix_def)
qed

lemma brace_free_prefix: "brace_free (pattern_prefix p)"
  unfolding brace_free_def pattern_prefix_def list_all_iff
  by (auto dest: set_takeWhileD)

lemma py_format_single:
  assumes "single_placeholder p"
  shows "py_format p i = Inr (substitute p i)"
proof -
  from assms have bf: "brace_free (pattern_suffix p)"
    by (simp add: single_placeholder_def)
  from assms have "take 2 (dropWhile (\<lambda>c. \<not> is_brace c) p) = ''{}''"
    by (simp add: single_placeholder_def)
  then have sp: "p = pattern_prefix p @ ''{}'' @ pattern_suffix p"
    by (rule pattern_split)
  have "py_format p i = fmt_text ANS_INIT 0 i (pattern_prefix p @ ''{}'' @ pattern_suffix p)"
    using sp by (simp add: py_format_def)
  also have "\<dots> = emit (pattern_prefix p) (fmt_text ANS_INIT 0 i (''{}'' @ pattern_suffix p))"
    by (rule fmt_text_literal [OF brace_free_prefix])
  also have "\<dots> = emit (pattern_prefix p) (emit (str_int i) (fmt_text ANS_AUTO 1 i (pattern_suffix p)))"
    by (simp only: fmt_text_first_field)
  also have "\<dots> = Inr (substitute p i)"
    by (simp add: fmt_text_brace_free [OF bf] substitute_def)
  finally show ?thesis .
qed

lemma py_format_brace_free: "brace_free p \<Longrightarrow> py_format p i = Inr p"
  by (simp add: py_format_def fmt_text_brace_free)

lemma py_format_two_auto:
  assumes "two_auto_placeholders p"
  shows "py_format p i =
     Inl (IndexError ''Replacement index 1 out of range for positional args tuple'')"
proof -
  let ?q = "pattern_suffix p"
  from assms have "take 2 (dropWhile (\<lambda>c. \<not> is_brace c) p) = ''{}''"
    by (simp add: two_auto_placeholders_def)
  then have sp: "p = pattern_prefix p @ ''{}'' @ ?q"
    by (rule pattern_split)
  from assms have "take 2 (dropWhile (\<lambda>c. \<not> is_brace c) ?q) = ''{}''"
    by (simp add: two_auto_placeholders_def)
  then have sq: "?q = pattern_prefix ?q @ ''{}'' @ pattern_suffix ?q"
    by (rule pattern_split)
  have "py_format p i = fmt_text ANS_INIT 0 i (pattern_prefix p @ ''{}'' @ ?q)"
    using sp by (simp add: py_format_def)
  also have "\<dots> = emit (pattern_prefix p) (fmt_text ANS_INIT 0 i (''{}'' @ ?q))"
    by (rule fmt_text_literal [OF brace_free_prefix])
  also have "\<dots> = emit (pattern_prefix p) (emit (str_int i) (fmt_text ANS_AUTO 1 i ?q))"
    by (simp only: fmt_text_first_field)
  also have "fmt_text ANS_AUTO 1 i ?q =
      fmt_text ANS_AUTO 1 i (pattern_prefix ?q @ ''{}'' @ pattern_suffix ?q)"
    using sq by simp
  also have "\<dots> = emit (pattern_prefix ?q) (fmt_text ANS_AUTO 1 i (''{}'' @ pattern_suffix ?q))"
    by (rule fmt_text_literal [OF brace_free_prefix])
  also have "\<dots> = Inl (IndexError ''Replacement index 1 out of range for positional args tuple'')"
    by (simp only: fmt_text_second_field emit_Inl)
  finally show ?thesis by simp
qed

section \<open>Properties of the TLD selector and of the generator loop\<close>

lemma py_split_nonempty: "py_split sep s \<noteq> []"
  by (induction s) auto

lemma hd_py_split: "hd (py_split sep s) = takeWhile (\<lambda>c. c \<noteq> sep) s"
  by (induction s) auto

lemma choice_nonempty:
  assumes "seq \<noteq> []"
  shows "\<exists>x g'. choice seq g = Inr (x, g') \<and> x \<in> set seq"
proof -
  have "g 0 mod length seq < length seq"
    using assms by simp
  then show ?thesis
    using assms by (simp add: choice_def randbelow_def)
qed

lemma choices_Suc_fst:
  "fst (choices population (Suc k) g) =
     population ! fst (randbelow (length population) g) #
     fst (choices population k (snd (randbelow (length population) g)))"
  by (simp add: Let_def split: prod.splits)

lemma choices_length: "length (fst (choices population k g)) = k"
proof (induction k arbitrary: g)
  case 0
  then show ?case by simp
next
  case (Suc k)
  show ?case
    unfolding choices_Suc_fst by (simp add: Suc.IH)
qed

lemma choices_set:
  "population \<noteq> [] \<Longrightarrow> set (fst (choices population k g)) \<subseteq> set population"
proof (induction k arbitrary: g)
  case 0
  then show ?case by simp
next
  case (Suc k)
  have "fst (randbelow (length population) g) < length population"
    using randbelow_less [of "length population" g] Suc.prems by simp
  then have "population ! fst (randbelow (length population) g) \<in> set population"
    by simp
  moreover have "set (fst (choices population k (snd (randbelow (length population) g))))
      \<subseteq> set population"
    using Suc.prems by (rule Suc.IH)
  ultimately show ?case
    unfolding choices_Suc_fst by simp
qed

lemma generate_random_tld_default:
  "\<exists>t g'. generate_random_tld None g = Inr (t, g') \<and> tld_value t"
proof -
  obtain coin g1 where coin: "choice [True, False] g = Inr (coin, g1)"
    using choice_nonempty [of "[True, False]" g] by auto
  show ?thesis
  proof (cases coin)
    case True
    have "default_tlds \<noteq> []"
      by (simp add: default_tlds_def)
    then obtain t g2 where t: "choice default_tlds g1 = Inr (t, g2)" "t \<in> set default_tlds"
      using choice_nonempty [of default_tlds g1] by blast
    then show ?thesis
      using coin True by (simp add: generate_random_tld_def tld_value_def)
  next
    case False
    obtain k g2 where k: "choice [2, 3 :: nat] g1 = Inr (k, g2)" "k \<in> set [2, 3]"
      using choice_nonempty [of "[2, 3 :: nat]" g1] by auto
    obtain t g3 where t: "choices ascii_lowercase k g2 = (t, g3)"
      by (cases "choices ascii_lowercase k g2")
    have len: "length t = k"
      using choices_length [of ascii_lowercase k g2] t by simp
    have "ascii_lowercase \<noteq> []"
      by (simp add: ascii_lowercase_def)
    then have "set t \<subseteq> set ascii_lowercase"
      using choices_set [of ascii_lowercase k g2] t by simp
    then have "list_all (\<lambda>c. c \<in> set ascii_lowercase) t"
      by (auto simp: list_all_iff)
    then have "tld_value t"
      using len k(2) by (auto simp: tld_value_def)
    then show ?thesis
      using coin False k(1) t by (simp add: generate_random_tld_def)
  qed
qed

lemma links_loop_ok:
  assumes "\<And>i. i \<in> set idxs \<Longrightarrow> py_format p i = Inr (f i)"
  shows "\<exists>tlds g'. length tlds = length idxs \<and> list_all tld_value tlds \<and>
           links_loop pr b p idxs g acc =
             Inr (acc @ map2 (\<lambda>i t. link_for pr b (f i) t) idxs tlds, g')"
  using assms
proof (induction idxs arbitrary: g acc)
  case Nil
  then show ?case by simp
next
  case (Cons i idxs)
  obtain t g1 where t: "generate_random_tld None g = Inr (t, g1)" "tld_value t"
    using generate_random_tld_default [of g] by auto
  have fi: "py_format p i = Inr (f i)"
    using Cons.prems by simp
  obtain tlds g' where rest: "length tlds = length idxs" "list_all tld_value tlds"
    "links_loop pr b p idxs g1 (acc @ [link_for pr b (f i) t]) =
       Inr ((acc @ [link_for pr b (f i) t]) @ map2 (\<lambda>i t. link_for pr b (f i) t) idxs tlds, g')"
    using Cons.IH [of g1 "acc @ [link_for pr b (f i) t]"] Cons.prems by auto
  have "links_loop pr b p (i # idxs) g acc =
      Inr (acc @ map2 (\<lambda>i t. link_for pr b (f i) t) (i # idxs) (t # tlds), g')"
    using fi t(1) rest(3) by (simp add: link_for_def)
  moreover have "length (t # tlds) = length (i # idxs)" "list_all tld_value (t # tlds)"
    using rest t(2) by simp_all
  ultimately show ?case by blast
qed

lemma links_loop_first_error:
  assumes "py_format p i = Inl e"
  shows "links_loop pr b p (i # idxs) g acc = Inl e"
  using assms by simp

lemma generate_links_unfold:
  assumes "urlparse u = Some pr" "hostname pr = Some h"
  shows "generate_links u n p g = links_loop pr (first_label h) p [1..n] g []"
proof -
  obtain b bs where bs: "py_split CHR ''.'' h = b # bs"
    using py_split_nonempty [of "CHR ''.''" h] by (cases "py_split CHR ''.'' h") auto
  then have "b = first_label h"
    using hd_py_split [of "CHR ''.''" h] by (simp add: first_label_def)
  then show ?thesis
    using assms bs by (simp add: generate_links_def)
qed

lemma valid_base_urlE:
  assumes "valid_base_url u"
  obtains pr h where "urlparse u = Some pr" "hostname pr = Some h" "parsed_hostname u = h"
  using assms by (auto simp: valid_base_url_def parsed_hostname_def split: option.splits)

lemma generate_links_ok:
  assumes "urlparse u = Some pr" "hostname pr = Some h"
    and "\<And>i. 1 \<le> i \<Longrightarrow> i \<le> n \<Longrightarrow> py_format p i = Inr (f i)"
  shows "\<exists>tlds g'. length tlds = nat n \<and> list_all tld_value tlds \<and>
           generate_links u n p g =
             Inr (map2 (\<lambda>i t. link_for pr (first_label h) (f i) t) [1..n] tlds, g')"
proof -
  have "\<And>i. i \<in> set [1..n] \<Longrightarrow> py_format p i = Inr (f i)"
    using assms(3) by simp
  from links_loop_ok [of "[1..n]" p f pr "first_label h" g "[]", OF this]
  show ?thesis
    using generate_links_unfold [OF assms(1,2)] by simp
qed

section \<open>How many links are returned\<close>

lemma generated_link_eq:
  assumes "urlparse u = Some pr" "hostname pr = Some h"
  shows "generated_link u new_path t = link_for pr (first_label h) new_path t"
  using assms by (simp add: generated_link_def parsed_hostname_def)

lemma generate_links_characterised:
  assumes "valid_base_url u"
    and "\<And>i. 1 \<le> i \<Longrightarrow> i \<le> n \<Longrightarrow> py_format p i = Inr (f i)"
  shows "\<exists>tlds g'. length tlds = nat n \<and> list_all tld_value tlds \<and>
           generate_links u n p g =
             Inr (map2 (\<lambda>i t. generated_link u (f i) t) [1..n] tlds, g')"
proof -
  from assms(1) obtain pr h where pr: "urlparse u = Some pr" "hostname pr = Some h"
    by (rule valid_base_urlE)
  from generate_links_ok [OF pr assms(2), of n g]
  show ?thesis
    by (simp add: generated_link_eq [OF pr])
qed

lemma upto_empty: "n < 1 \<Longrightarrow> [1..n] = []"
  by simp

lemma generate_links_no_iteration:
  assumes "valid_base_url u" "n \<le> 0"
  shows "generate_links u n p g = Inr ([], g)"
proof -
  from assms(1) obtain pr h where pr: "urlparse u = Some pr" "hostname pr = Some h"
    by (rule valid_base_urlE)
  have "[1..n] = []"
    using assms(2) by simp
  then show ?thesis
    using generate_links_unfold [OF pr, of n p g] by simp
qed

lemma generate_links_format_error:
  assumes "valid_base_url u" "1 \<le> n" "py_format p 1 = Inl e"
  shows "generate_links u n p g = Inl e"
proof -
  from assms(1) obtain pr h where pr: "urlparse u = Some pr" "hostname pr = Some h"
    by (rule valid_base_urlE)
  have "[1..n] = 1 # [2..n]"
    using assms(2) by (simp add: upto_rec1)
  then show ?thesis
    using generate_links_unfold [OF pr, of n p g] assms(3) by simp
qed

text \<open>
  Claim C9.  For every valid base URL, every negative \<open>num_links\<close>, every path pattern
  and every state of the random source, \<open>generate_links\<close> returns the empty list (and
  leaves the random source untouched): a negative count is treated as zero, no error
  is raised.
\<close>

theorem C9_negative_count_returns_empty:
  "valid_base_url base_url \<Longrightarrow> num_links < 0 \<Longrightarrow>
   generate_links base_url num_links path_pattern g = Inr ([], g)"
  by (rule generate_links_no_iteration) simp_all

lemma example_com_valid: "valid_base_url ''https://example.com''"
  by code_simp

theorem C9_negative_count_returns_empty_witness:
  "valid_base_url ''https://example.com'' \<and> (- 3 :: int) < 0 \<and>
   generate_links ''https://example.com'' (- 3) ''/page{}'' zero_rng = Inr ([], zero_rng)"
  using C9_negative_count_returns_empty [of "''https://example.com''" "- 3" "''/page{}''" zero_rng]
    example_com_valid
  by simp

text \<open>
  Claim C3.  For every valid base URL, every count \<open>num_links \<ge> 0\<close> and every
  single-placeholder path pattern, \<open>generate_links\<close> returns (it raises nothing) a list
  of exactly \<open>num_links\<close> links, whatever the random source; for the count 0 the list
  is empty.
\<close>

theorem C3_returns_count_links:
  "valid_base_url base_url \<Longrightarrow> 0 \<le> num_links \<Longrightarrow> single_placeholder path_pattern \<Longrightarrow>
   \<exists>links g'. generate_links base_url num_links path_pattern g = Inr (links, g') \<and>
     int (length links) = num_links \<and> (num_links = 0 \<longrightarrow> links = [])"
proof -
  assume v: "valid_base_url base_url" and n: "0 \<le> num_links"
    and sp: "single_placeholder path_pattern"
  have "\<And>i. 1 \<le> i \<Longrightarrow> i \<le> num_links \<Longrightarrow>
      py_format path_pattern i = Inr (substitute path_pattern i)"
    using sp by (simp add: py_format_single)
  from generate_links_characterised [OF v this, of num_links g]
  obtain tlds g' where t: "length tlds = nat num_links"
    "generate_links base_url num_links path_pattern g =
       Inr (map2 (\<lambda>i t. generated_link base_url (substitute path_pattern i) t)
              [1..num_links] tlds, g')"
    by blast
  let ?links = "map2 (\<lambda>i t. generated_link base_url (substitute path_pattern i) t)
              [1..num_links] tlds"
  have "int (length ?links) = num_links"
    using t(1) n by simp
  moreover have "num_links = 0 \<longrightarrow> ?links = []"
    by simp
  ultimately show ?thesis
    using t(2) by blast
qed

lemma page_pattern_single: "single_placeholder ''/page{}''"
  by code_simp

theorem C3_returns_count_links_witness:
  "valid_base_url ''https://example.com'' \<and> (0 :: int) \<le> 3 \<and> single_placeholder ''/page{}'' \<and>
   (\<exists>links g'. generate_links ''https://example.com'' 3 ''/page{}'' count_rng = Inr (links, g') \<and>
      int (length links) = 3)"
  using C3_returns_count_links [of "''https://example.com''" 3 "''/page{}''" count_rng]
    example_com_valid page_pattern_single
  by simp

section \<open>Errors of the generator\<close>

lemma urlparse_empty:
  "urlparse [] = Some \<lparr>scheme = [], netloc = [], path = [], params = [], query = [], fragment = []\<rparr>"
  by code_simp

lemma urlparse_no_scheme:
  "urlparse ''example.com'' =
     Some \<lparr>scheme = [], netloc = [], path = ''example.com'', params = [], query = [],
           fragment = []\<rparr>"
  by code_simp

lemma hostname_empty_netloc: "netloc pr = [] \<Longrightarrow> hostname pr = None"
  by (simp add: hostname_def hostinfo_def py_rpartition_def py_partition_def)

lemma urlparse_unbalanced_bracket: "urlparse ''http://[::1'' = None"
  by code_simp

text \<open>
  Claim C1 (the code does not do what the claim says).  A base URL without a hostname,
  such as the empty string or \<^verbatim>\<open>example.com\<close>, is accepted by \<^verbatim>\<open>urlparse\<close>; its hostname
  is \<^verbatim>\<open>None\<close>, and \<open>generate_links\<close> fails in \<^verbatim>\<open>None.split\<close> with an \<^verbatim>\<open>AttributeError\<close>
  whose message does not mention the input.  Only where \<^verbatim>\<open>urlparse\<close> itself raises, as
  for an unbalanced bracket, is the error the \<^verbatim>\<open>ValueError\<close> that names the base URL.
  No link is produced or printed in either case.
\<close>

theorem C1_missing_hostname_raises_attribute_error:
  "generate_links [] num_links path_pattern g =
     Inl (AttributeError (squote @ ''NoneType'' @ squote @ '' object has no attribute '' @
            squote @ ''split'' @ squote)) \<and>
   generate_links ''example.com'' num_links path_pattern g =
     Inl (AttributeError (squote @ ''NoneType'' @ squote @ '' object has no attribute '' @
            squote @ ''split'' @ squote)) \<and>
   generate_links ''http://[::1'' num_links path_pattern g =
     Inl (ValueError ''Invalid base URL: http://[::1'') \<and>
   main_output [] num_links path_pattern g =
     Inl (AttributeError (squote @ ''NoneType'' @ squote @ '' object has no attribute '' @
            squote @ ''split'' @ squote))"
  by (simp add: generate_links_def main_output_def randomize_and_generate_links_def
      urlparse_empty urlparse_no_scheme urlparse_unbalanced_bracket hostname_empty_netloc)

lemma map2_ignore_first:
  "length xs = length ys \<Longrightarrow> map2 (\<lambda>x y. f y) xs ys = map f ys"
  by (induction xs ys rule: list_induct2) auto

lemma static_brace_free: "brace_free ''/static''"
  by code_simp

text \<open>
  Claim C2 as stated fails: a pattern without any placeholder is not rejected.  For the
  base URL \<^verbatim>\<open>https://example.com\<close>, the count 2 and the pattern \<^verbatim>\<open>/static\<close> the generator
  returns two links.
\<close>

theorem C2_counterexample:
  "valid_base_url ''https://example.com'' \<and> brace_free ''/static'' \<and>
   links_of (generate_links ''https://example.com'' 2 ''/static'' zero_rng) =
     Inr [''https://example.com/static'', ''https://example.com/static'']"
  by code_simp

text \<open>
  Claim C2, amended.  For every valid base URL: a path pattern whose first two fields are
  both \<^verbatim>\<open>{}\<close> makes \<open>generate_links\<close> fail, for every count of at least 1, with the
  \<^verbatim>\<open>IndexError\<close> of \<^verbatim>\<open>str.format\<close>, and no list is returned; a pattern without braces is
  not rejected but used unchanged as the path of every link; and for a count of at most
  0 nothing is formatted, so no pattern raises an error.
\<close>

theorem C2_format_errors:
  "valid_base_url base_url \<Longrightarrow>
   (two_auto_placeholders path_pattern \<and> 1 \<le> num_links \<longrightarrow>
      generate_links base_url num_links path_pattern g =
        Inl (IndexError ''Replacement index 1 out of range for positional args tuple'')) \<and>
   (brace_free path_pattern \<longrightarrow>
      (\<exists>tlds g'. length tlds = nat num_links \<and>
         generate_links base_url num_links path_pattern g =
           Inr (map (generated_link base_url path_pattern) tlds, g'))) \<and>
   (num_links \<le> 0 \<longrightarrow> generate_links base_url num_links path_pattern g = Inr ([], g))"
proof -
  assume v: "valid_base_url base_url"
  have a: "two_auto_placeholders path_pattern \<and> 1 \<le> num_links \<longrightarrow>
      generate_links base_url num_links path_pattern g =
        Inl (IndexError ''Replacement index 1 out of range for positional args tuple'')"
    using generate_links_format_error [OF v] py_format_two_auto by blast
  have b: "brace_free path_pattern \<longrightarrow>
      (\<exists>tlds g'. length tlds = nat num_links \<and>
         generate_links base_url num_links path_pattern g =
           Inr (map (generated_link base_url path_pattern) tlds, g'))"
  proof
    assume bf: "brace_free path_pattern"
    have "\<And>i. 1 \<le> i \<Longrightarrow> i \<le> num_links \<Longrightarrow> py_format path_pattern i = Inr path_pattern"
      using bf by (simp add: py_format_brace_free)
    from generate_links_characterised [OF v this, of num_links g]
    obtain tlds g' where t: "length tlds = nat num_links"
      "generate_links base_url num_links path_pattern g =
         Inr (map2 (\<lambda>i t. generated_link base_url path_pattern t) [1..num_links] tlds, g')"
      by blast
    have "length [1..num_links] = length tlds"
      using t(1) by simp
    then have "map2 (\<lambda>i t. generated_link base_url path_pattern t) [1..num_links] tlds =
        map (generated_link base_url path_pattern) tlds"
      by (rule map2_ignore_first)
    then show "\<exists>tlds g'. length tlds = nat num_links \<and>
         generate_links base_url num_links path_pattern g =
           Inr (map (generated_link base_url path_pattern) tlds, g')"
      using t by auto
  qed
  have c: "num_links \<le> 0 \<longrightarrow> generate_links base_url num_links path_pattern g = Inr ([], g)"
    using generate_links_no_iteration [OF v] by blast
  show ?thesis
    using a b c by blast
qed

lemma two_auto_example: "two_auto_placeholders ''/a{}/b{}''"
  by code_simp

theorem C2_format_errors_witness:
  "valid_base_url ''https://example.com'' \<and> two_auto_placeholders ''/a{}/b{}'' \<and> (1 :: int) \<le> 3 \<and>
   generate_links ''https://example.com'' 3 ''/a{}/b{}'' zero_rng =
     Inl (IndexError ''Replacement index 1 out of range for positional args tuple'') \<and>
   brace_free ''/static'' \<and>
   (\<exists>tlds g'. length tlds = 3 \<and>
      generate_links ''https://example.com'' 3 ''/static'' zero_rng =
        Inr (map (generated_link ''https://example.com'' ''/static'') tlds, g')) \<and>
   (0 :: int) \<le> 0 \<and>
   generate_links ''https://example.com'' 0 ''/a{}/b{}'' zero_rng = Inr ([], zero_rng)"
  using C2_format_errors [of "''https://example.com''" "''/a{}/b{}''" 3 zero_rng]
    C2_format_errors [of "''https://example.com''" "''/static''" 3 zero_rng]
    C2_format_errors [of "''https://example.com''" "''/a{}/b{}''" 0 zero_rng]
    example_com_valid two_auto_example static_brace_free
  by simp

section \<open>Properties of the URL functions\<close>

lemma of_char_less_256: "(of_char c :: nat) < 256"
  by (cases c) simp

lemma char_of_eq_iff: "n < 256 \<Longrightarrow> (char_of (n :: nat) = c) = (n = of_char c)"
  by (metis char_of_char mod_less of_char_of)

lemma of_char_py_lower:
  "(of_char (py_lower c) :: nat) = (if is_upper c then of_char c + 32 else of_char c)"
  by (auto simp: py_lower_def is_upper_def Let_def of_char_of)

lemma py_lower_idem: "py_lower (py_lower c) = py_lower c"
proof -
  have "\<not> is_upper (py_lower c)"
    using of_char_py_lower [of c] by (auto simp: is_upper_def split: if_splits)
  then have "(of_char (py_lower (py_lower c)) :: nat) = of_char (py_lower c)"
    by (simp add: of_char_py_lower)
  then show ?thesis
    by (simp only: of_char_eq_iff)
qed

lemma py_lower_eq_caseless: "caseless d \<Longrightarrow> (py_lower c = d) = (c = d)"
proof -
  assume d: "caseless d"
  have "(py_lower c = d) = ((of_char (py_lower c) :: nat) = of_char d)"
    by (simp only: of_char_eq_iff)
  also have "\<dots> = ((of_char c :: nat) = of_char d)"
    using d by (auto simp: of_char_py_lower caseless_def is_upper_def)
  also have "\<dots> = (c = d)"
    by (simp only: of_char_eq_iff)
  finally show ?thesis .
qed

lemma caseless_chars:
  "caseless CHR ''/''" "caseless CHR ''?''" "caseless CHR ''#''" "caseless CHR ''@''"
  "caseless CHR '':''" "caseless CHR ''[''" "caseless CHR '']''" "caseless CHR ''.''"
  "caseless CHR ''%''" "caseless CHR '';''" "caseless CHR 0x09" "caseless CHR 0x0A"
  "caseless CHR 0x0D"
  by (simp_all add: caseless_def)

lemma scheme_chars_lower: "c \<in> set scheme_chars \<Longrightarrow> py_lower c \<in> set scheme_chars"
  unfolding scheme_chars_def py_lower_def Let_def
  by (auto simp: char_of_eq_iff)

lemma is_ascii_alpha_lower: "is_ascii_alpha c \<Longrightarrow> is_ascii_alpha (py_lower c)"
  using of_char_py_lower [of c] by (auto simp: is_ascii_alpha_def is_upper_def Let_def)

lemma scheme_chars_plain:
  "c \<in> set scheme_chars \<Longrightarrow>
     c \<noteq> CHR '':'' \<and> c \<noteq> CHR ''/'' \<and> \<not> unsafe_url_byte c \<and> \<not> c0_control_or_space c"
  unfolding scheme_chars_def unsafe_url_byte_def c0_control_or_space_def
  by auto

lemma ascii_lowercase_plain:
  "c \<in> set ascii_lowercase \<Longrightarrow> py_lower c = c \<and> 97 \<le> (of_char c :: nat) \<and> (of_char c :: nat) \<le> 122"
  unfolding ascii_lowercase_def py_lower_def Let_def
  by auto

lemma url_safe_subset: "url_safe s \<Longrightarrow> set t \<subseteq> set s \<Longrightarrow> url_safe t"
  by (auto simp: url_safe_def list_all_iff)

lemma url_safe_filter: "url_safe (filter (\<lambda>c. \<not> unsafe_url_byte c) s)"
  by (simp add: url_safe_def list_all_iff)

lemma url_safe_filter_id: "url_safe s \<Longrightarrow> filter (\<lambda>c. \<not> unsafe_url_byte c) s = s"
  by (simp add: url_safe_def list_all_iff)

lemma url_safe_append [simp]: "url_safe (s @ t) = (url_safe s \<and> url_safe t)"
  by (simp add: url_safe_def)

lemma set_tl_subset: "set (tl xs) \<subseteq> set xs"
  by (cases xs) auto

lemma set_tl_dropWhile: "x \<in> set (tl (dropWhile P xs)) \<Longrightarrow> x \<in> set xs"
  using set_tl_subset [of "dropWhile P xs"] by (auto dest: set_dropWhileD)

lemma takeWhile_upto_sep:
  "sep \<notin> set a \<Longrightarrow> takeWhile (\<lambda>c. c \<noteq> sep) (a @ sep # b) = a"
  by (induction a) auto

lemma dropWhile_upto_sep:
  "sep \<notin> set a \<Longrightarrow> dropWhile (\<lambda>c. c \<noteq> sep) (a @ sep # b) = sep # b"
  by (induction a) auto

lemma takeWhile_absent: "sep \<notin> set s \<Longrightarrow> takeWhile (\<lambda>c. c \<noteq> sep) s = s"
  by (induction s) auto

lemma dropWhile_absent: "sep \<notin> set s \<Longrightarrow> dropWhile (\<lambda>c. c \<noteq> sep) s = []"
  by (induction s) auto

lemma split1_sets:
  "set (fst (split1 sep s)) \<subseteq> set s" "sep \<notin> set (fst (split1 sep s))"
  "set (snd (split1 sep s)) \<subseteq> set s"
  by (auto simp: split1_def dest: set_takeWhileD set_tl_dropWhile)

lemma split1_absent: "sep \<notin> set s \<Longrightarrow> split1 sep s = (s, [])"
  by (simp add: split1_def takeWhile_absent dropWhile_absent)

lemma split1_cond: "(if sep \<in> set s then split1 sep s else (s, [])) = split1 sep s"
  by (simp add: split1_absent)

lemma split1_append:
  "sep \<notin> set a \<Longrightarrow> split1 sep (a @ sep # b) = (a, b)"
  by (simp add: split1_def takeWhile_upto_sep dropWhile_upto_sep)

lemma split_scheme_props:
  assumes "split_scheme url = (s, rest)"
  shows "scheme_ok s" "set rest \<subseteq> set url"
proof -
  let ?front = "takeWhile (\<lambda>c. c \<noteq> CHR '':'') url"
  let ?cond = "CHR '':'' \<in> set url \<and> ?front \<noteq> [] \<and> is_ascii_alpha (hd url) \<and>
            list_all (\<lambda>c. c \<in> set scheme_chars) ?front"
  show "scheme_ok s"
  proof (cases ?cond)
    case True
    then have s: "s = map py_lower ?front"
      using assms by (simp add: split_scheme_def Let_def)
    from True have ne: "?front \<noteq> []" by simp
    then have "hd ?front = hd url"
      by (cases url) (auto split: if_splits)
    then have "is_ascii_alpha (hd s)"
      using True ne s by (simp add: hd_map is_ascii_alpha_lower)
    moreover have "list_all (\<lambda>c. c \<in> set scheme_chars) s"
      using True s by (auto simp: list_all_iff scheme_chars_lower)
    moreover have "map py_lower s = s"
      using s by (simp add: py_lower_idem)
    ultimately show ?thesis
      by (simp add: scheme_ok_def)
  next
    case False
    then have "s = []"
      using assms by (auto simp: split_scheme_def Let_def split: if_splits)
    then show ?thesis
      by (simp add: scheme_ok_def)
  qed
  have "set (tl (dropWhile (\<lambda>c. c \<noteq> CHR '':'') url)) \<subseteq> set url"
    by (auto dest: set_tl_dropWhile)
  then show "set rest \<subseteq> set url"
    using assms by (auto simp: split_scheme_def Let_def split: if_splits)
qed

lemma splitnetloc_props:
  "list_all (\<lambda>c. \<not> netloc_delim c) (fst (splitnetloc url k))"
  "set (fst (splitnetloc url k)) \<subseteq> set url"
  "set (snd (splitnetloc url k)) \<subseteq> set url"
  by (auto simp: splitnetloc_def list_all_iff dest!: set_takeWhileD set_dropWhileD in_set_dropD)

lemma splitparams_props:
  assumes "splitparams url = (a, b)" "CHR '';'' \<in> set url"
  shows "set b \<subseteq> set url" "CHR ''/'' \<notin> set b"
proof -
  let ?seg = "rev (takeWhile (\<lambda>c. c \<noteq> CHR ''/'') (rev url))"
  have seg: "set ?seg \<subseteq> set url" "CHR ''/'' \<notin> set ?seg"
    by (auto dest: set_takeWhileD)
  have tl_seg: "set (tl (dropWhile (\<lambda>c. c \<noteq> CHR '';'') ?seg)) \<subseteq> set ?seg"
    using set_tl_dropWhile [of _ "\<lambda>c. c \<noteq> CHR '';''" ?seg] by blast
  show "set b \<subseteq> set url"
  proof (cases "CHR ''/'' \<in> set url")
    case True
    then have "b = tl (dropWhile (\<lambda>c. c \<noteq> CHR '';'') ?seg) \<or> b = []"
      using assms(1) by (auto simp: splitparams_def Let_def split: if_splits)
    then show ?thesis
      using tl_seg seg(1) by auto
  next
    case False
    then have "b = snd (split1 CHR '';'' url)"
      using assms by (auto simp: splitparams_def)
    then show ?thesis
      using split1_sets(3) by simp
  qed
  show "CHR ''/'' \<notin> set b"
  proof (cases "CHR ''/'' \<in> set url")
    case True
    then have "b = tl (dropWhile (\<lambda>c. c \<noteq> CHR '';'') ?seg) \<or> b = []"
      using assms(1) by (auto simp: splitparams_def Let_def split: if_splits)
    then show ?thesis
      using tl_seg seg(2) by auto
  next
    case False
    then have "b = snd (split1 CHR '';'' url)"
      using assms by (auto simp: splitparams_def)
    then show ?thesis
      using split1_sets(3) [of "CHR '';''" url] False by auto
  qed
qed

lemma urlsplit_SomeD:
  assumes "urlsplit u = Some (s, nl, p, q, f)"
  obtains url1 url2 url3 where
    "url_safe url1" "split_scheme url1 = (s, url2)"
    "nl = fst (if take 2 url2 = ''//'' then splitnetloc url2 2 else ([], url2))"
    "url3 = snd (if take 2 url2 = ''//'' then splitnetloc url2 2 else ([], url2))"
    "f = snd (split1 CHR ''#'' url3)"
    "q = snd (split1 CHR ''?'' (fst (split1 CHR ''#'' url3)))"
    "p = fst (split1 CHR ''?'' (fst (split1 CHR ''#'' url3)))"
proof -
  define url1 where "url1 = filter (\<lambda>c. \<not> unsafe_url_byte c) (dropWhile c0_control_or_space u)"
  obtain s' url2 where ss: "split_scheme url1 = (s', url2)"
    by (cases "split_scheme url1")
  define nup where "nup = (if take 2 url2 = ''//'' then splitnetloc url2 2 else ([], url2))"
  have eq: "Some (s, nl, p, q, f) =
      Some (s', fst nup, fst (split1 CHR ''?'' (fst (split1 CHR ''#'' (snd nup)))),
            snd (split1 CHR ''?'' (fst (split1 CHR ''#'' (snd nup)))),
            snd (split1 CHR ''#'' (snd nup)))"
    using assms ss
    unfolding urlsplit_def url1_def [symmetric] Let_def split1_cond
    by (auto split: if_splits simp: split_beta nup_def)
  have safe: "url_safe url1"
    unfolding url1_def by (rule url_safe_filter)
  show ?thesis
  proof (rule that [of url1 url2 "snd nup"])
    show "url_safe url1" by (rule safe)
    show "split_scheme url1 = (s, url2)" using ss eq by simp
    show "nl = fst (if take 2 url2 = ''//'' then splitnetloc url2 2 else ([], url2))"
      using eq by (simp add: nup_def)
    show "snd nup = snd (if take 2 url2 = ''//'' then splitnetloc url2 2 else ([], url2))"
      by (simp add: nup_def)
    show "f = snd (split1 CHR ''#'' (snd nup))" using eq by simp
    show "q = snd (split1 CHR ''?'' (fst (split1 CHR ''#'' (snd nup))))" using eq by simp
    show "p = fst (split1 CHR ''?'' (fst (split1 CHR ''#'' (snd nup))))" using eq by simp
  qed
qed

lemma urlparse_SomeD:
  assumes "urlparse u = Some pr"
  obtains p where "urlsplit u = Some (scheme pr, netloc pr, p, query pr, fragment pr)"
    "(path pr, params pr) =
       (if scheme pr \<in> set uses_params \<and> CHR '';'' \<in> set p then splitparams p else (p, []))"
proof -
  from assms obtain s nl p q f where sp: "urlsplit u = Some (s, nl, p, q, f)"
    by (auto simp: urlparse_def split: option.splits)
  obtain a b where ab:
    "(a, b) = (if s \<in> set uses_params \<and> CHR '';'' \<in> set p then splitparams p else (p, []))"
    by (cases "if s \<in> set uses_params \<and> CHR '';'' \<in> set p then splitparams p else (p, [])") auto
  have "pr = \<lparr>scheme = s, netloc = nl, path = a, params = b, query = q, fragment = f\<rparr>"
    using assms sp ab [symmetric] by (simp add: urlparse_def Let_def)
  then show ?thesis
    using that [of p] sp ab by simp
qed

lemma urlparse_wf:
  assumes "urlparse u = Some pr"
  shows "wf_parse pr"
proof -
  from assms obtain p where sp: "urlsplit u = Some (scheme pr, netloc pr, p, query pr, fragment pr)"
    and pp: "(path pr, params pr) =
       (if scheme pr \<in> set uses_params \<and> CHR '';'' \<in> set p then splitparams p else (p, []))"
    by (rule urlparse_SomeD)
  from sp obtain url1 url2 url3 where
    safe: "url_safe url1" and ss: "split_scheme url1 = (scheme pr, url2)"
    and nu: "netloc pr = fst (if take 2 url2 = ''//'' then splitnetloc url2 2 else ([], url2))"
    and nu3: "url3 = snd (if take 2 url2 = ''//'' then splitnetloc url2 2 else ([], url2))"
    and f: "fragment pr = snd (split1 CHR ''#'' url3)"
    and q: "query pr = snd (split1 CHR ''?'' (fst (split1 CHR ''#'' url3)))"
    and p: "p = fst (split1 CHR ''?'' (fst (split1 CHR ''#'' url3)))"
    by (rule urlsplit_SomeD)
  have url2: "set url2 \<subseteq> set url1"
    using split_scheme_props(2) [OF ss] .
  have nl_delim: "list_all (\<lambda>c. \<not> netloc_delim c) (netloc pr)"
    using nu splitnetloc_props(1) [of url2 2] by (auto split: if_splits)
  have nl_sub: "set (netloc pr) \<subseteq> set url1"
    using nu splitnetloc_props(2) [of url2 2] url2 by (auto split: if_splits)
  have url3: "set url3 \<subseteq> set url1"
    using nu3 splitnetloc_props(3) [of url2 2] url2 by (auto split: if_splits)
  let ?url4 = "fst (split1 CHR ''#'' url3)"
  have url4: "set ?url4 \<subseteq> set url1" "CHR ''#'' \<notin> set ?url4"
    using split1_sets(1,2) [of "CHR ''#''" url3] url3 by auto
  have f_sub: "set (fragment pr) \<subseteq> set url1"
    using f split1_sets(3) [of "CHR ''#''" url3] url3 by auto
  have q_sub: "set (query pr) \<subseteq> set ?url4"
    using q split1_sets(3) [of "CHR ''?''" ?url4] by auto
  have p_sub: "set p \<subseteq> set ?url4" "CHR ''?'' \<notin> set p"
    using p split1_sets(1,2) [of "CHR ''?''" ?url4] by auto
  have params_sub: "set (params pr) \<subseteq> set p" "CHR ''/'' \<notin> set (params pr)"
    and params_gate: "scheme pr \<in> set uses_params \<or> params pr = []"
  proof -
    show "set (params pr) \<subseteq> set p"
    proof (cases "scheme pr \<in> set uses_params \<and> CHR '';'' \<in> set p")
      case True
      then have "splitparams p = (path pr, params pr)"
        using pp by simp
      from splitparams_props(1) [OF this] True show ?thesis by simp
    next
      case False
      then show ?thesis using pp by auto
    qed
    show "CHR ''/'' \<notin> set (params pr)"
    proof (cases "scheme pr \<in> set uses_params \<and> CHR '';'' \<in> set p")
      case True
      then have "splitparams p = (path pr, params pr)"
        using pp by simp
      from splitparams_props(2) [OF this] True show ?thesis by simp
    next
      case False
      then show ?thesis using pp by auto
    qed
    show "scheme pr \<in> set uses_params \<or> params pr = []"
      using pp by (auto split: if_splits)
  qed
  have "list_all (\<lambda>c. \<not> netloc_delim c) (params pr)"
    using params_sub p_sub url4(2) by (auto simp: list_all_iff netloc_delim_def)
  moreover have "url_safe (params pr)" "url_safe (query pr)" "url_safe (fragment pr)"
    "url_safe (netloc pr)"
    using params_sub(1) p_sub(1) url4(1) q_sub f_sub nl_sub url_safe_subset [OF safe]
    by blast+
  moreover have "CHR ''#'' \<notin> set (query pr)"
    using q_sub url4(2) by auto
  ultimately show ?thesis
    using split_scheme_props(1) [OF ss] nl_delim params_gate
    by (simp add: wf_parse_def)
qed

lemma py_partition_sets:
  "set (fst (py_partition sep s)) \<subseteq> set s"
  "sep \<notin> set (fst (py_partition sep s))"
  "set (snd (snd (py_partition sep s))) \<subseteq> set s"
  by (auto simp: py_partition_def dest: set_takeWhileD set_tl_dropWhile)

lemma py_partition_absent: "sep \<notin> set s \<Longrightarrow> py_partition sep s = (s, [], [])"
  by (simp add: py_partition_def)

lemma py_rpartition_third:
  "set (snd (snd (py_rpartition sep s))) \<subseteq> set s"
  "sep \<notin> set (snd (snd (py_rpartition sep s)))"
  by (auto simp: py_rpartition_def dest: set_takeWhileD)

lemma py_rpartition_absent: "sep \<notin> set s \<Longrightarrow> py_rpartition sep s = ([], [], s)"
  by (simp add: py_rpartition_def)

lemma hostinfo_sets:
  "set (fst (hostinfo pr)) \<subseteq> set (netloc pr)" "CHR ''@'' \<notin> set (fst (hostinfo pr))"
proof -
  let ?hinfo = "snd (snd (py_rpartition CHR ''@'' (netloc pr)))"
  let ?br = "snd (snd (py_partition CHR ''['' ?hinfo))"
  have h: "set ?hinfo \<subseteq> set (netloc pr)" "CHR ''@'' \<notin> set ?hinfo"
    by (rule py_rpartition_third)+
  have br: "set ?br \<subseteq> set ?hinfo"
    by (rule py_partition_sets)
  have "fst (hostinfo pr) = fst (py_partition CHR '']'' ?br) \<or>
        fst (hostinfo pr) = fst (py_partition CHR '':'' ?hinfo)"
    by (simp add: hostinfo_def Let_def split_beta)
  moreover have "set (fst (py_partition CHR '']'' ?br)) \<subseteq> set ?hinfo"
    using py_partition_sets(1) [of "CHR '']''" ?br] br by blast
  moreover have "set (fst (py_partition CHR '':'' ?hinfo)) \<subseteq> set ?hinfo"
    by (rule py_partition_sets)
  ultimately have "set (fst (hostinfo pr)) \<subseteq> set ?hinfo"
    by auto
  then show "set (fst (hostinfo pr)) \<subseteq> set (netloc pr)" "CHR ''@'' \<notin> set (fst (hostinfo pr))"
    using h by auto
qed

lemma hostinfo_plain:
  assumes "CHR ''@'' \<notin> set (netloc pr)" "CHR ''['' \<notin> set (netloc pr)"
    "CHR '':'' \<notin> set (netloc pr)"
  shows "hostinfo pr = (netloc pr, None)"
  using assms by (simp add: hostinfo_def py_rpartition_absent py_partition_absent)

lemma norm_host_partition:
  "(let (h', percent, zone) = py_partition CHR ''%'' h in map py_lower h' @ percent @ zone) =
     norm_host h"
proof (induction h)
  case Nil
  then show ?case by (simp add: py_partition_def)
next
  case (Cons c cs)
  show ?case
  proof (cases "c = CHR ''%''")
    case True
    then show ?thesis by (simp add: py_partition_def)
  next
    case False
    then show ?thesis
      using Cons.IH by (auto simp: py_partition_def Let_def split: if_splits)
  qed
qed

lemma hostname_norm:
  "hostname pr = (if fst (hostinfo pr) = [] then None else Some (norm_host (fst (hostinfo pr))))"
  using norm_host_partition [of "fst (hostinfo pr)"]
  by (simp add: hostname_def Let_def split_beta)

lemma py_lower_eq_caseless': "caseless d \<Longrightarrow> (d = py_lower c) = (d = c)"
  using py_lower_eq_caseless [of d c] by auto

lemma norm_host_caseless:
  "caseless d \<Longrightarrow> (d \<in> set (norm_host x)) = (d \<in> set x)"
proof (induction x)
  case Nil
  then show ?case by simp
next
  case (Cons c x)
  then show ?case
    using py_lower_eq_caseless' [OF Cons.prems, of c] by auto
qed

lemma first_label_norm_host: "first_label (norm_host x) = norm_host (first_label x)"
  unfolding first_label_def
  by (induction x) (auto simp: py_lower_eq_caseless caseless_chars)

lemma norm_host_idem: "norm_host (norm_host x) = norm_host x"
  by (induction x) (auto simp: py_lower_idem)

lemma is_lower_letter_fixed: "is_lower_letter c \<Longrightarrow> py_lower c = c"
  by (simp add: py_lower_def is_lower_letter_def Let_def)

lemma norm_host_lower: "list_all is_lower_letter t \<Longrightarrow> norm_host t = t"
  by (induction t) (auto simp: is_lower_letter_fixed)

lemma norm_host_append_tld:
  "list_all is_lower_letter t \<Longrightarrow> norm_host (x @ CHR ''.'' # t) = norm_host x @ CHR ''.'' # t"
proof (induction x)
  case Nil
  have "py_lower CHR ''.'' = CHR ''.''"
    using py_lower_eq_caseless [OF caseless_chars(8), of "CHR ''.''"] by simp
  then show ?case
    using Nil by (simp add: norm_host_lower)
next
  case (Cons c x)
  then show ?case by simp
qed

lemma norm_host_new_hostname:
  assumes "list_all is_lower_letter t"
  shows "norm_host (first_label (norm_host x) @ CHR ''.'' # t) =
           first_label (norm_host x) @ CHR ''.'' # t"
  by (simp add: norm_host_append_tld [OF assms] first_label_norm_host norm_host_idem)

lemma first_label_new_hostname:
  "first_label (first_label h @ CHR ''.'' # t) = first_label h"
  unfolding first_label_def
  by (induction h) auto

lemma top_label_new_hostname:
  "CHR ''.'' \<notin> set t \<Longrightarrow> top_label (b @ CHR ''.'' # t) = t"
  unfolding top_label_def
  by (simp add: takeWhile_upto_sep)

lemma tld_value_lower: "tld_value t \<Longrightarrow> list_all is_lower_letter t"
proof -
  assume "tld_value t"
  then consider "t \<in> set default_tlds" | "list_all (\<lambda>c. c \<in> set ascii_lowercase) t"
    by (auto simp: tld_value_def)
  then show ?thesis
  proof cases
    case 1
    then show ?thesis
      by (auto simp: default_tlds_def is_lower_letter_def)
  next
    case 2
    then show ?thesis
      by (auto simp: list_all_iff is_lower_letter_def dest: ascii_lowercase_plain)
  qed
qed

lemma is_lower_letter_plain:
  "is_lower_letter c \<Longrightarrow>
     c \<noteq> CHR ''.'' \<and> c \<noteq> CHR ''@'' \<and> c \<noteq> CHR '':'' \<and> c \<noteq> CHR ''['' \<and> c \<noteq> CHR '']'' \<and>
     \<not> netloc_delim c \<and> \<not> unsafe_url_byte c"
  by (auto simp: is_lower_letter_def netloc_delim_def unsafe_url_byte_def)

lemma urlunparse_shape:
  "netloc x \<noteq> [] \<Longrightarrow>
   urlunparse x = scheme_part (scheme x) @ ''//'' @ netloc x @ tail_part x"
  by (simp add: urlunparse_def urlunsplit_def scheme_part_def tail_part_def path_part_def Let_def)

lemma path_part_starts: "path_part x = [] \<or> hd (path_part x) = CHR ''/''"
proof -
  let ?u = "if params x \<noteq> [] then path x @ '';'' @ params x else path x"
  show ?thesis
  proof (cases "?u = []")
    case True
    then show ?thesis by (simp add: path_part_def Let_def)
  next
    case False
    then obtain c cs where u: "?u = c # cs"
      by (cases ?u) auto
    show ?thesis
      unfolding path_part_def Let_def u by simp
  qed
qed

lemma tail_part_starts: "tail_part x = [] \<or> netloc_delim (hd (tail_part x))"
proof (cases "path_part x = []")
  case False
  then have "hd (tail_part x) = CHR ''/''"
    using path_part_starts [of x] by (simp add: tail_part_def)
  then show ?thesis by (simp add: netloc_delim_def)
next
  case True
  then show ?thesis
    by (simp add: tail_part_def netloc_delim_def)
qed

lemma scheme_ok_chars:
  assumes "scheme_ok s" "c \<in> set s"
  shows "c \<noteq> CHR '':''" "\<not> unsafe_url_byte c" "c \<in> set scheme_chars"
  using assms scheme_chars_plain [of c]
  by (auto simp: scheme_ok_def list_all_iff)

lemma is_ascii_alpha_not_c0: "is_ascii_alpha c \<Longrightarrow> \<not> c0_control_or_space c"
  by (auto simp: is_ascii_alpha_def c0_control_or_space_def Let_def)

lemma slash_not_alpha: "\<not> is_ascii_alpha CHR ''/''" "\<not> c0_control_or_space CHR ''/''"
  by (simp_all add: is_ascii_alpha_def c0_control_or_space_def)

lemma split_scheme_rebuilt:
  assumes "scheme_ok s"
  shows "split_scheme (scheme_part s @ ''//'' @ rest) = (s, ''//'' @ rest)"
proof (cases "s = []")
  case True
  then show ?thesis
    by (simp add: scheme_part_def split_scheme_def slash_not_alpha)
next
  case False
  have colon: "CHR '':'' \<notin> set s"
    using scheme_ok_chars(1) [OF assms] by blast
  have front: "takeWhile (\<lambda>c. c \<noteq> CHR '':'') (s @ CHR '':'' # ''//'' @ rest) = s"
    by (rule takeWhile_upto_sep [OF colon])
  have after: "dropWhile (\<lambda>c. c \<noteq> CHR '':'') (s @ CHR '':'' # ''//'' @ rest) =
      CHR '':'' # ''//'' @ rest"
    by (rule dropWhile_upto_sep [OF colon])
  have hd: "hd (s @ CHR '':'' # ''//'' @ rest) = hd s"
    using False by simp
  have ok: "is_ascii_alpha (hd s)" "list_all (\<lambda>c. c \<in> set scheme_chars) s" "map py_lower s = s"
    using assms False by (simp_all add: scheme_ok_def)
  have "split_scheme (s @ CHR '':'' # ''//'' @ rest) = (s, ''//'' @ rest)"
    unfolding split_scheme_def Let_def front after hd
    using False ok by simp
  then show ?thesis
    using False by (simp add: scheme_part_def)
qed

lemma takeWhile_netloc:
  assumes "list_all (\<lambda>c. \<not> netloc_delim c) nl" "r = [] \<or> netloc_delim (hd r)"
  shows "takeWhile (\<lambda>c. \<not> netloc_delim c) (nl @ r) = nl"
    "dropWhile (\<lambda>c. \<not> netloc_delim c) (nl @ r) = r"
proof -
  have all: "\<And>c. c \<in> set nl \<Longrightarrow> \<not> netloc_delim c"
    using assms(1) by (simp add: list_all_iff)
  have r: "takeWhile (\<lambda>c. \<not> netloc_delim c) r = []" "dropWhile (\<lambda>c. \<not> netloc_delim c) r = r"
    using assms(2) by (cases r; auto)+
  show "takeWhile (\<lambda>c. \<not> netloc_delim c) (nl @ r) = nl"
    using all r by (simp add: takeWhile_append2)
  show "dropWhile (\<lambda>c. \<not> netloc_delim c) (nl @ r) = r"
    using all r by (simp add: dropWhile_append2)
qed

lemma netloc_delim_safe: "netloc_delim c \<Longrightarrow> \<not> unsafe_url_byte c"
  by (auto simp: netloc_delim_def unsafe_url_byte_def)

lemma filter_tail_starts:
  assumes "r = [] \<or> netloc_delim (hd r)"
  shows "filter (\<lambda>c. \<not> unsafe_url_byte c) r = [] \<or>
         netloc_delim (hd (filter (\<lambda>c. \<not> unsafe_url_byte c) r))"
  using assms by (cases r) (auto simp: netloc_delim_safe)

text \<open>Parsing a link that was put together from a scheme, a network location without
  delimiters or brackets, and any tail that starts with a delimiter.\<close>

lemma urlsplit_rebuilt:
  assumes s: "scheme_ok s"
    and nl: "list_all (\<lambda>c. \<not> netloc_delim c) nl" "url_safe nl"
      "CHR ''['' \<notin> set nl" "CHR '']'' \<notin> set nl"
    and r: "r = [] \<or> netloc_delim (hd r)"
  shows "urlsplit (scheme_part s @ ''//'' @ nl @ r) =
     (let r' = filter (\<lambda>c. \<not> unsafe_url_byte c) r
      in Some (s, nl, fst (split1 CHR ''?'' (fst (split1 CHR ''#'' r'))),
               snd (split1 CHR ''?'' (fst (split1 CHR ''#'' r'))),
               snd (split1 CHR ''#'' r')))"
proof -
  let ?link = "scheme_part s @ ''//'' @ nl @ r"
  let ?r' = "filter (\<lambda>c. \<not> unsafe_url_byte c) r"
  have first: "\<not> c0_control_or_space (hd ?link)" and ne: "?link \<noteq> []"
  proof -
    show "?link \<noteq> []" by simp
    show "\<not> c0_control_or_space (hd ?link)"
    proof (cases "s = []")
      case True
      then show ?thesis by (simp add: scheme_part_def slash_not_alpha)
    next
      case False
      then have "hd ?link = hd s" by (simp add: scheme_part_def)
      then show ?thesis
        using s False by (simp add: scheme_ok_def is_ascii_alpha_not_c0)
    qed
  qed
  have strip: "dropWhile c0_control_or_space ?link = ?link"
    using first ne by (cases ?link) auto
  have s_safe: "filter (\<lambda>c. \<not> unsafe_url_byte c) (scheme_part s) = scheme_part s"
    using scheme_ok_chars(2) [OF s]
    by (auto simp: scheme_part_def unsafe_url_byte_def filter_id_conv)
  have nl_safe: "filter (\<lambda>c. \<not> unsafe_url_byte c) nl = nl"
    using nl(2) by (rule url_safe_filter_id)
  have url1: "filter (\<lambda>c. \<not> unsafe_url_byte c) (dropWhile c0_control_or_space ?link) =
      scheme_part s @ ''//'' @ nl @ ?r'"
    unfolding strip using s_safe nl_safe by (simp add: unsafe_url_byte_def)
  have sch: "split_scheme (scheme_part s @ ''//'' @ nl @ ?r') = (s, ''//'' @ nl @ ?r')"
    by (rule split_scheme_rebuilt [OF s])
  have r': "?r' = [] \<or> netloc_delim (hd ?r')"
    by (rule filter_tail_starts [OF r])
  have net: "splitnetloc (''//'' @ nl @ ?r') 2 = (nl, ?r')"
    using takeWhile_netloc [OF nl(1) r'] by (simp add: splitnetloc_def)
  show ?thesis
    unfolding urlsplit_def url1 Let_def sch split1_cond
    using net nl(3,4) by (simp add: split_beta)
qed

lemma caseless_delim: "netloc_delim c \<Longrightarrow> caseless c"
  by (auto simp: netloc_delim_def caseless_def)

lemma caseless_unsafe: "unsafe_url_byte c \<Longrightarrow> caseless c"
  by (auto simp: unsafe_url_byte_def caseless_def)

lemma hostname_chars:
  assumes "wf_parse pr" "hostname pr = Some h"
  shows "list_all (\<lambda>c. \<not> netloc_delim c) h" "url_safe h" "CHR ''@'' \<notin> set h"
    "h = norm_host (fst (hostinfo pr))"
proof -
  let ?host = "fst (hostinfo pr)"
  show h: "h = norm_host ?host"
    using assms(2) by (simp add: hostname_norm split: if_splits)
  have sub: "set ?host \<subseteq> set (netloc pr)" and at: "CHR ''@'' \<notin> set ?host"
    by (rule hostinfo_sets)+
  have nl_delim: "\<And>c. c \<in> set (netloc pr) \<Longrightarrow> \<not> netloc_delim c"
    using assms(1) by (simp add: wf_parse_def list_all_iff)
  have nl_safe: "\<And>c. c \<in> set (netloc pr) \<Longrightarrow> \<not> unsafe_url_byte c"
    using assms(1) by (simp add: wf_parse_def url_safe_def list_all_iff)
  have orig: "c \<in> set (netloc pr)" if "caseless c" "c \<in> set h" for c
  proof -
    have "c \<in> set ?host"
      using norm_host_caseless [OF that(1), of ?host] that(2) h by simp
    then show ?thesis
      using sub by blast
  qed
  have "\<not> netloc_delim c" if "c \<in> set h" for c
  proof
    assume d: "netloc_delim c"
    then have "c \<in> set (netloc pr)"
      using orig [OF caseless_delim that] by simp
    then show False
      using nl_delim d by blast
  qed
  then show "list_all (\<lambda>c. \<not> netloc_delim c) h"
    by (simp add: list_all_iff)
  have "\<not> unsafe_url_byte c" if "c \<in> set h" for c
  proof
    assume d: "unsafe_url_byte c"
    then have "c \<in> set (netloc pr)"
      using orig [OF caseless_unsafe that] by simp
    then show False
      using nl_safe d by blast
  qed
  then show "url_safe h"
    by (simp add: url_safe_def list_all_iff)
  show "CHR ''@'' \<notin> set h"
    using norm_host_caseless [OF caseless_chars(4), of ?host] at h by simp
qed

lemma first_label_subset: "set (first_label h) \<subseteq> set h"
  by (auto simp: first_label_def dest: set_takeWhileD)

lemma dot_plain:
  "\<not> netloc_delim CHR ''.''" "\<not> unsafe_url_byte CHR ''.''"
  by (simp_all add: netloc_delim_def unsafe_url_byte_def)

text \<open>The network location the generator writes has no delimiter, bracket, colon or
  at-sign when the hostname of the base URL has no colon and no bracket.\<close>

lemma new_netloc_plain:
  assumes "wf_parse pr" "hostname pr = Some h" "host_plain h" "tld_value t"
  defines "nl \<equiv> first_label h @ ''.'' @ t"
  shows "list_all (\<lambda>c. \<not> netloc_delim c) nl" "url_safe nl"
    "CHR ''['' \<notin> set nl" "CHR '']'' \<notin> set nl" "CHR '':'' \<notin> set nl" "CHR ''@'' \<notin> set nl"
    "norm_host nl = nl" "nl \<noteq> []"
proof -
  note hc = hostname_chars [OF assms(1,2)]
  have t: "is_lower_letter c" if "c \<in> set t" for c
    using tld_value_lower [OF assms(4)] that by (simp add: list_all_iff)
  have cases: "c \<in> set h \<or> c = CHR ''.'' \<or> is_lower_letter c" if "c \<in> set nl" for c
    using that first_label_subset [of h] t by (auto simp: nl_def)
  have "\<not> netloc_delim c" if "c \<in> set nl" for c
    using cases [OF that] hc(1) dot_plain(1) is_lower_letter_plain [of c]
    by (auto simp: list_all_iff)
  then show "list_all (\<lambda>c. \<not> netloc_delim c) nl"
    by (simp add: list_all_iff)
  have "\<not> unsafe_url_byte c" if "c \<in> set nl" for c
    using cases [OF that] hc(2) dot_plain(2) is_lower_letter_plain [of c]
    by (auto simp: url_safe_def list_all_iff)
  then show "url_safe nl"
    by (simp add: url_safe_def list_all_iff)
  show "CHR ''['' \<notin> set nl"
    using cases [of "CHR ''[''"] assms(3) is_lower_letter_plain [of "CHR ''[''"]
    by (auto simp: host_plain_def)
  show "CHR '']'' \<notin> set nl"
    using cases [of "CHR '']''"] assms(3) is_lower_letter_plain [of "CHR '']''"]
    by (auto simp: host_plain_def)
  show "CHR '':'' \<notin> set nl"
    using cases [of "CHR '':''"] assms(3) is_lower_letter_plain [of "CHR '':''"]
    by (auto simp: host_plain_def)
  show "CHR ''@'' \<notin> set nl"
    using cases [of "CHR ''@''"] hc(3) is_lower_letter_plain [of "CHR ''@''"]
    by auto
  have "norm_host (first_label (norm_host (fst (hostinfo pr))) @ CHR ''.'' # t) =
      first_label (norm_host (fst (hostinfo pr))) @ CHR ''.'' # t"
    by (rule norm_host_new_hostname [OF tld_value_lower [OF assms(4)]])
  then show "norm_host nl = nl"
    using hc(4) by (simp add: nl_def)
  show "nl \<noteq> []"
    by (simp add: nl_def)
qed

lemma reparse_host:
  assumes "urlparse u = Some pr" "hostname pr = Some h" "host_plain h" "tld_value t"
  shows "\<exists>q. urlparse (link_for pr (first_label h) new_path t) = Some q \<and>
           scheme q = scheme pr \<and> netloc q = first_label h @ ''.'' @ t \<and>
           hostname q = Some (first_label h @ ''.'' @ t) \<and> snd (hostinfo q) = None"
proof -
  let ?nl = "first_label h @ ''.'' @ t"
  let ?x = "pr\<lparr>netloc := ?nl, path := new_path\<rparr>"
  have wf: "wf_parse pr"
    by (rule urlparse_wf [OF assms(1)])
  note nl = new_netloc_plain [OF wf assms(2,3,4)]
  have link: "link_for pr (first_label h) new_path t =
      scheme_part (scheme pr) @ ''//'' @ ?nl @ tail_part ?x"
    using urlunparse_shape [of ?x] by (simp add: link_for_def)
  have s: "scheme_ok (scheme pr)"
    using wf by (simp add: wf_parse_def)
  obtain p5 q5 f5 where split:
    "urlsplit (scheme_part (scheme pr) @ ''//'' @ ?nl @ tail_part ?x) =
       Some (scheme pr, ?nl, p5, q5, f5)"
    using urlsplit_rebuilt [OF s nl(1,2,3,4) tail_part_starts [of ?x]]
    by (simp add: Let_def)
  obtain q where q: "urlparse (link_for pr (first_label h) new_path t) = Some q"
    "scheme q = scheme pr" "netloc q = ?nl"
    unfolding link urlparse_def split by (simp add: Let_def split_beta)
  have hi: "hostinfo q = (?nl, None)"
    using hostinfo_plain [of q] nl(3,5,6) q(3) by simp
  then have "hostname q = Some (norm_host ?nl)"
    using nl(8) by (simp add: hostname_norm)
  then have "hostname q = Some ?nl"
    using nl(7) by simp
  then show ?thesis
    using q hi by simp
qed

section \<open>The hostname of the generated links\<close>

lemma list_all_map2:
  assumes "\<And>x y. y \<in> set ys \<Longrightarrow> P (f x y)"
  shows "list_all P (map2 f xs ys)"
  using assms by (auto simp: list_all_iff dest: set_zip_rightD)

lemma generated_link_reparse:
  assumes "valid_base_url u" "host_plain (parsed_hostname u)" "tld_value t"
  shows "\<exists>q. urlparse (generated_link u new_path t) = Some q \<and>
           netloc q = first_label (parsed_hostname u) @ ''.'' @ t \<and>
           hostname q = Some (first_label (parsed_hostname u) @ ''.'' @ t) \<and>
           snd (hostinfo q) = None"
proof -
  from assms(1) obtain pr h where pr: "urlparse u = Some pr" "hostname pr = Some h"
    and h: "parsed_hostname u = h"
    by (rule valid_base_urlE)
  have "host_plain h"
    using assms(2) h by simp
  from reparse_host [OF pr this assms(3), of new_path]
  show ?thesis
    using h by (auto simp: generated_link_eq [OF pr])
qed

lemma tld_no_dot: "tld_value t \<Longrightarrow> CHR ''.'' \<notin> set t"
  using tld_value_lower [of t] is_lower_letter_plain by (auto simp: list_all_iff)

text \<open>The links returned for a single-placeholder pattern, each with the TLD value it was
  built from.\<close>

lemma generate_links_single:
  assumes "valid_base_url u" "single_placeholder p"
    and "\<And>i t. tld_value t \<Longrightarrow> P (generated_link u (substitute p i) t)"
  shows "\<exists>links g'. generate_links u n p g = Inr (links, g') \<and> length links = nat n \<and>
           list_all P links"
proof -
  have "\<And>i. 1 \<le> i \<Longrightarrow> i \<le> n \<Longrightarrow> py_format p i = Inr (substitute p i)"
    using assms(2) by (simp add: py_format_single)
  from generate_links_characterised [OF assms(1) this, of n g]
  obtain tlds g' where t: "length tlds = nat n" "list_all tld_value tlds"
    "generate_links u n p g =
       Inr (map2 (\<lambda>i t. generated_link u (substitute p i) t) [1..n] tlds, g')"
    by blast
  have "list_all P (map2 (\<lambda>i t. generated_link u (substitute p i) t) [1..n] tlds)"
    using t(2) assms(3) by (intro list_all_map2) (simp add: list_all_iff)
  moreover have "length (map2 (\<lambda>i t. generated_link u (substitute p i) t) [1..n] tlds) = nat n"
    using t(1) by simp
  ultimately show ?thesis
    using t(3) by blast
qed

text \<open>
  Claim C6 as stated fails for a base URL whose host is a bracketed IPv6 literal.  The
  hostname of \<^verbatim>\<open>http://[::1]/\<close> is \<^verbatim>\<open>::1\<close>, which is also the base hostname; the link
  built from it is \<^verbatim>\<open>http://::1.com/page1\<close>, and \<^verbatim>\<open>urlparse\<close> finds no hostname in it.
\<close>

theorem C6_counterexample:
  "valid_base_url ''http://[::1]/'' \<and> single_placeholder ''/page{}'' \<and>
   parsed_hostname ''http://[::1]/'' = ''::1'' \<and>
   first_label (parsed_hostname ''http://[::1]/'') = ''::1'' \<and>
   links_of (generate_links ''http://[::1]/'' 1 ''/page{}'' zero_rng) =
     Inr [''http://::1.com/page1''] \<and>
   urlparse ''http://::1.com/page1'' =
     Some \<lparr>scheme = ''http'', netloc = ''::1.com'', path = ''/page1'', params = [],
            query = [], fragment = []\<rparr> \<and>
   hostname \<lparr>scheme = ''http'', netloc = ''::1.com'', path = ''/page1'', params = [],
            query = [], fragment = []\<rparr> = None"
  by code_simp

text \<open>The first label of a hostname: it has no dot, and what follows it in the hostname is
  nothing or starts with a dot.\<close>

lemma first_label_shape:
  "CHR ''.'' \<notin> set (first_label h) \<and>
   (\<exists>rest. h = first_label h @ rest \<and> (rest = [] \<or> hd rest = CHR ''.''))"
proof -
  let ?rest = "dropWhile (\<lambda>c. c \<noteq> CHR ''.'') h"
  have "CHR ''.'' \<notin> set (first_label h)"
    by (auto simp: first_label_def dest: set_takeWhileD)
  moreover have "h = first_label h @ ?rest"
    by (simp add: first_label_def)
  moreover have "?rest = [] \<or> hd ?rest = CHR ''.''"
    using hd_dropWhile [of "\<lambda>c. c \<noteq> CHR ''.''" h] by auto
  ultimately show ?thesis by blast
qed

text \<open>
  Claim C6, amended.  The base hostname \<open>generate_links\<close> extracts is the first element
  of \<^verbatim>\<open>hostname.split('.')\<close>: the part of the hostname before its first dot (it has no
  dot, and the hostname continues after it with a dot or not at all), the whole hostname
  when it has no dot.  For every valid base URL whose hostname contains no colon and no
  bracket, every count and every single-placeholder pattern, \<open>generate_links\<close> returns
  that many links and each of them is parsed by \<^verbatim>\<open>urlparse\<close> to a result whose hostname
  is exactly that base hostname, a dot and a TLD value; the first dot-delimited label of
  that hostname is the base hostname.  Nothing of the base URL's hostname after its first
  dot is in the hostname of a link.
\<close>

theorem C6_base_hostname_label:
  assumes "valid_base_url base_url" "host_plain (parsed_hostname base_url)"
    "single_placeholder path_pattern"
  shows "py_split CHR ''.'' (parsed_hostname base_url) \<noteq> [] \<and>
     hd (py_split CHR ''.'' (parsed_hostname base_url)) = first_label (parsed_hostname base_url) \<and>
     (CHR ''.'' \<notin> set (parsed_hostname base_url) \<longrightarrow>
        first_label (parsed_hostname base_url) = parsed_hostname base_url) \<and>
     CHR ''.'' \<notin> set (first_label (parsed_hostname base_url)) \<and>
     (\<exists>rest. parsed_hostname base_url = first_label (parsed_hostname base_url) @ rest \<and>
        (rest = [] \<or> hd rest = CHR ''.'')) \<and>
     (\<exists>links g'. generate_links base_url num_links path_pattern g = Inr (links, g') \<and>
        length links = nat num_links \<and>
        list_all (\<lambda>link. \<exists>q h' tld. urlparse link = Some q \<and> hostname q = Some h' \<and>
                    tld_value tld \<and>
                    h' = first_label (parsed_hostname base_url) @ ''.'' @ tld \<and>
                    first_label h' = first_label (parsed_hostname base_url)) links)"
proof -
  let ?h = "parsed_hostname base_url"
  have a: "py_split CHR ''.'' ?h \<noteq> []"
    by (rule py_split_nonempty)
  have b: "hd (py_split CHR ''.'' ?h) = first_label ?h"
    by (simp add: hd_py_split first_label_def)
  have c: "CHR ''.'' \<notin> set ?h \<longrightarrow> first_label ?h = ?h"
    by (simp add: first_label_def takeWhile_absent)
  note d = first_label_shape [of ?h]
  let ?P = "\<lambda>link. \<exists>q h' tld. urlparse link = Some q \<and> hostname q = Some h' \<and> tld_value tld \<and>
      h' = first_label ?h @ ''.'' @ tld \<and> first_label h' = first_label ?h"
  have P: "?P (generated_link base_url (substitute path_pattern i) t)" if "tld_value t" for i t
    using generated_link_reparse [OF assms(1,2) that, of "substitute path_pattern i"] that
      first_label_new_hostname [of ?h t]
    by auto
  have "\<exists>links g'. generate_links base_url num_links path_pattern g = Inr (links, g') \<and>
      length links = nat num_links \<and> list_all ?P links"
    by (rule generate_links_single [of base_url path_pattern ?P, OF assms(1,3) P])
  then show ?thesis
    using a b c d by blast
qed

lemma example_www_valid: "valid_base_url ''https://www.example.com''"
  by code_simp

lemma example_www_plain: "host_plain (parsed_hostname ''https://www.example.com'')"
  by code_simp

lemma example_www_labels:
  "parsed_hostname ''https://www.example.com'' = ''www.example.com''"
  "first_label ''www.example.com'' = ''www''"
  by code_simp+

lemma example_com_plain: "host_plain (parsed_hostname ''https://example.com'')"
  by code_simp

theorem C6_base_hostname_label_witness:
  "valid_base_url ''https://www.example.com'' \<and>
   host_plain (parsed_hostname ''https://www.example.com'') \<and>
   single_placeholder ''/page{}'' \<and>
   parsed_hostname ''https://www.example.com'' = ''www.example.com'' \<and>
   hd (py_split CHR ''.'' ''www.example.com'') = ''www'' \<and>
   (\<exists>links g'. generate_links ''https://www.example.com'' 3 ''/page{}'' count_rng =
        Inr (links, g') \<and> length links = 3 \<and>
      list_all (\<lambda>link. \<exists>q h' tld. urlparse link = Some q \<and> hostname q = Some h' \<and>
                  tld_value tld \<and> h' = ''www.'' @ tld \<and> first_label h' = ''www'') links)"
  using C6_base_hostname_label [of "''https://www.example.com''" "''/page{}''" 3 count_rng]
    example_www_valid example_www_plain example_www_labels page_pattern_single
  by simp

text \<open>
  Claim C7 as stated fails for a base URL whose host is a bracketed IPv6 literal: the
  link built for \<^verbatim>\<open>https://[2001:db8::7]/start\<close> is \<^verbatim>\<open>https://2001:db8::7.com/page1\<close>,
  whose hostname is \<^verbatim>\<open>2001\<close>; its top-level label is no TLD value.
\<close>

theorem C7_counterexample:
  "valid_base_url ''https://[2001:db8::7]/start'' \<and> single_placeholder ''/page{}'' \<and>
   links_of (generate_links ''https://[2001:db8::7]/start'' 1 ''/page{}'' zero_rng) =
     Inr [''https://2001:db8::7.com/page1''] \<and>
   urlparse ''https://2001:db8::7.com/page1'' =
     Some \<lparr>scheme = ''https'', netloc = ''2001:db8::7.com'', path = ''/page1'', params = [],
            query = [], fragment = []\<rparr> \<and>
   hostname \<lparr>scheme = ''https'', netloc = ''2001:db8::7.com'', path = ''/page1'', params = [],
            query = [], fragment = []\<rparr> = Some ''2001'' \<and>
   top_label ''2001'' = ''2001'' \<and> \<not> tld_value ''2001''"
  by code_simp

text \<open>
  Claim C7, amended.  For every state of the random source the TLD selector, called with
  the default candidates, returns a TLD value: a default candidate, or two or three
  lowercase ASCII letters.  For every valid base URL whose hostname contains no colon and
  no bracket, every count and every single-placeholder pattern, each returned link is
  accepted by \<^verbatim>\<open>urlparse\<close>, has a hostname, and the top-level label of that hostname is
  a TLD value.
\<close>

theorem C7_links_end_in_tld_value:
  assumes "valid_base_url base_url" "host_plain (parsed_hostname base_url)"
    "single_placeholder path_pattern"
  shows "(\<exists>tld g1. generate_random_tld None g = Inr (tld, g1) \<and> tld_value tld) \<and>
     (\<exists>links g'. generate_links base_url num_links path_pattern g = Inr (links, g') \<and>
        length links = nat num_links \<and>
        list_all (\<lambda>link. \<exists>q h'. urlparse link = Some q \<and> hostname q = Some h' \<and>
                    tld_value (top_label h')) links)"
proof -
  let ?P = "\<lambda>link. \<exists>q h'. urlparse link = Some q \<and> hostname q = Some h' \<and>
      tld_value (top_label h')"
  have P: "?P (generated_link base_url (substitute path_pattern i) t)" if "tld_value t" for i t
    using generated_link_reparse [OF assms(1,2) that, of "substitute path_pattern i"]
      top_label_new_hostname [OF tld_no_dot [OF that]] that
    by auto
  have "\<exists>links g'. generate_links base_url num_links path_pattern g = Inr (links, g') \<and>
      length links = nat num_links \<and> list_all ?P links"
    by (rule generate_links_single [of base_url path_pattern ?P, OF assms(1,3) P])
  then show ?thesis
    using generate_random_tld_default [of g] by blast
qed

theorem C7_links_end_in_tld_value_witness:
  "valid_base_url ''https://example.com'' \<and> host_plain (parsed_hostname ''https://example.com'') \<and>
   single_placeholder ''/page{}'' \<and>
   (\<exists>tld g1. generate_random_tld None count_rng = Inr (tld, g1) \<and> tld_value tld) \<and>
   (\<exists>links g'. generate_links ''https://example.com'' 2 ''/page{}'' count_rng = Inr (links, g') \<and>
      length links = 2 \<and>
      list_all (\<lambda>link. \<exists>q h'. urlparse link = Some q \<and> hostname q = Some h' \<and>
                  tld_value (top_label h')) links)"
  using C7_links_end_in_tld_value [of "''https://example.com''" "''/page{}''" count_rng 2]
    example_com_valid example_com_plain page_pattern_single
  by simp

text \<open>The new network location has none of the characters that end a network location,
  whatever the hostname of the base URL.\<close>

lemma new_netloc_no_delim:
  assumes "wf_parse pr" "hostname pr = Some h" "tld_value t"
  shows "list_all (\<lambda>c. \<not> netloc_delim c) (first_label h @ ''.'' @ t)"
proof -
  note hc = hostname_chars [OF assms(1,2)]
  have t: "is_lower_letter c" if "c \<in> set t" for c
    using tld_value_lower [OF assms(3)] that by (simp add: list_all_iff)
  have cases: "c \<in> set h \<or> c = CHR ''.'' \<or> is_lower_letter c"
    if "c \<in> set (first_label h @ ''.'' @ t)" for c
    using that first_label_subset [of h] t by auto
  have "\<not> netloc_delim c" if "c \<in> set (first_label h @ ''.'' @ t)" for c
    using cases [OF that] hc(1) dot_plain(1) is_lower_letter_plain [of c]
    by (auto simp: list_all_iff)
  then show ?thesis
    by (simp add: list_all_iff)
qed

text \<open>The text of a generated link: the scheme, two slashes, the new network location,
  and a rest that is empty or starts with a character that ends the network location.\<close>

lemma link_for_text:
  assumes "urlparse u = Some pr" "hostname pr = Some h" "tld_value t"
  shows "\<exists>rest. link_for pr (first_label h) new_path t =
             scheme_part (scheme pr) @ ''//'' @ (first_label h @ ''.'' @ t) @ rest \<and>
           (rest = [] \<or> netloc_delim (hd rest))"
proof -
  let ?x = "pr\<lparr>netloc := first_label h @ ''.'' @ t, path := new_path\<rparr>"
  have "link_for pr (first_label h) new_path t =
      scheme_part (scheme pr) @ ''//'' @ (first_label h @ ''.'' @ t) @ tail_part ?x"
    using urlunparse_shape [of ?x] by (simp add: link_for_def)
  then show ?thesis
    using tail_part_starts [of ?x] by blast
qed

text \<open>
  Claim C10.  For every base URL that \<^verbatim>\<open>urlparse\<close> accepts and that has a hostname (so
  in particular for every valid base URL with an explicit port), every count and every
  single-placeholder pattern, \<open>generate_links\<close> returns that many links, and each link
  is the scheme, \<^verbatim>\<open>//\<close>, then the base hostname, a dot and a TLD value, then nothing or
  a \<^verbatim>\<open>/\<close>, \<^verbatim>\<open>?\<close> or \<^verbatim>\<open>#\<close>.  The base hostname, the dot and the TLD value contain none of
  these three characters, so they are the whole network-location component of the link:
  the network location of the base URL, its port included, is replaced.  When the
  hostname of the base URL has no colon and no bracket, \<^verbatim>\<open>urlparse\<close> reads the link back
  with that network location and with no port.
\<close>

theorem C10_port_is_dropped:
  assumes "urlparse base_url = Some pr" "hostname pr = Some h" "single_placeholder path_pattern"
  shows "\<exists>links g'. generate_links base_url num_links path_pattern g = Inr (links, g') \<and>
     length links = nat num_links \<and>
     list_all (\<lambda>link. \<exists>tld rest. tld_value tld \<and>
        link = scheme_part (scheme pr) @ ''//'' @ (first_label h @ ''.'' @ tld) @ rest \<and>
        list_all (\<lambda>c. \<not> netloc_delim c) (first_label h @ ''.'' @ tld) \<and>
        (rest = [] \<or> netloc_delim (hd rest)) \<and>
        (host_plain h \<longrightarrow>
           (\<exists>q. urlparse link = Some q \<and> netloc q = first_label h @ ''.'' @ tld \<and>
              snd (hostinfo q) = None))) links"
proof -
  let ?P = "\<lambda>link. \<exists>tld rest. tld_value tld \<and>
        link = scheme_part (scheme pr) @ ''//'' @ (first_label h @ ''.'' @ tld) @ rest \<and>
        list_all (\<lambda>c. \<not> netloc_delim c) (first_label h @ ''.'' @ tld) \<and>
        (rest = [] \<or> netloc_delim (hd rest)) \<and>
        (host_plain h \<longrightarrow>
           (\<exists>q. urlparse link = Some q \<and> netloc q = first_label h @ ''.'' @ tld \<and>
              snd (hostinfo q) = None))"
  have v: "valid_base_url base_url"
    using assms(1,2) by (simp add: valid_base_url_def)
  have wf: "wf_parse pr"
    by (rule urlparse_wf [OF assms(1)])
  have P: "?P (generated_link base_url (substitute path_pattern i) t)" if t: "tld_value t" for i t
  proof -
    let ?link = "link_for pr (first_label h) (substitute path_pattern i) t"
    obtain rest where rest:
      "?link = scheme_part (scheme pr) @ ''//'' @ (first_label h @ ''.'' @ t) @ rest"
      "rest = [] \<or> netloc_delim (hd rest)"
      using link_for_text [OF assms(1,2) t, of "substitute path_pattern i"] by blast
    have nd: "list_all (\<lambda>c. \<not> netloc_delim c) (first_label h @ ''.'' @ t)"
      by (rule new_netloc_no_delim [OF wf assms(2) t])
    have parse: "host_plain h \<longrightarrow>
        (\<exists>q. urlparse ?link = Some q \<and> netloc q = first_label h @ ''.'' @ t \<and>
           snd (hostinfo q) = None)"
    proof
      assume "host_plain h"
      from reparse_host [OF assms(1,2) this t, of "substitute path_pattern i"]
      show "\<exists>q. urlparse ?link = Some q \<and> netloc q = first_label h @ ''.'' @ t \<and>
           snd (hostinfo q) = None"
        by blast
    qed
    have "?P ?link"
      using t rest nd parse by blast
    then show ?thesis
      by (simp only: generated_link_eq [OF assms(1,2)])
  qed
  show ?thesis
    by (rule generate_links_single [of base_url path_pattern ?P, OF v assms(3) P])
qed

lemma example_port_parsed:
  "urlparse ''https://example.com:8080'' =
     Some \<lparr>scheme = ''https'', netloc = ''example.com:8080'', path = [], params = [],
            query = [], fragment = []\<rparr>"
  by code_simp

lemma example_port_hostinfo:
  "hostinfo \<lparr>scheme = ''https'', netloc = ''example.com:8080'', path = [], params = [],
            query = [], fragment = []\<rparr> = (''example.com'', Some ''8080'')"
  "hostname \<lparr>scheme = ''https'', netloc = ''example.com:8080'', path = [], params = [],
            query = [], fragment = []\<rparr> = Some ''example.com''"
  "host_plain ''example.com''"
  "first_label ''example.com'' = ''example''"
  "scheme_part ''https'' = ''https:''"
  by code_simp+

text \<open>The base URL \<^verbatim>\<open>http://[::1]:8080/\<close>, an IPv6 host with a port: the link has the
  network location \<^verbatim>\<open>::1.com\<close>, the base hostname, a dot and the TLD, and the port text
  \<^verbatim>\<open>8080\<close> is gone.\<close>

lemma example_ipv6_port_link:
  "urlparse ''http://[::1]:8080/'' =
     Some \<lparr>scheme = ''http'', netloc = ''[::1]:8080'', path = ''/'', params = [],
            query = [], fragment = []\<rparr> \<and>
   hostinfo \<lparr>scheme = ''http'', netloc = ''[::1]:8080'', path = ''/'', params = [],
            query = [], fragment = []\<rparr> = (''::1'', Some ''8080'') \<and>
   links_of (generate_links ''http://[::1]:8080/'' 1 ''/page{}'' zero_rng) =
     Inr [''http:'' @ ''//'' @ (''::1'' @ ''.'' @ ''com'') @ ''/page1'']"
  by code_simp

theorem C10_port_is_dropped_witness:
  "urlparse ''https://example.com:8080'' =
     Some \<lparr>scheme = ''https'', netloc = ''example.com:8080'', path = [], params = [],
            query = [], fragment = []\<rparr> \<and>
   hostinfo \<lparr>scheme = ''https'', netloc = ''example.com:8080'', path = [], params = [],
            query = [], fragment = []\<rparr> = (''example.com'', Some ''8080'') \<and>
   single_placeholder ''/page{}'' \<and> host_plain ''example.com'' \<and>
   (\<exists>links g'. generate_links ''https://example.com:8080'' 2 ''/page{}'' count_rng =
        Inr (links, g') \<and> length links = 2 \<and>
      list_all (\<lambda>link. \<exists>tld rest. tld_value tld \<and>
         link = ''https://example.'' @ tld @ rest \<and>
         list_all (\<lambda>c. \<not> netloc_delim c) (''example.'' @ tld) \<and>
         (rest = [] \<or> netloc_delim (hd rest)) \<and>
         (\<exists>q. urlparse link = Some q \<and> netloc q = ''example.'' @ tld \<and>
            snd (hostinfo q) = None)) links)"
  using C10_port_is_dropped [OF example_port_parsed example_port_hostinfo(2) page_pattern_single,
      of 2 count_rng]
    example_port_parsed example_port_hostinfo page_pattern_single
  by simp

section \<open>Parsing a generated link back\<close>

lemma tail_part_eq: "tail_part x = path_part x @ query_part x @ fragment_part x"
  by (simp add: tail_part_def query_part_def fragment_part_def sep_part_def)

lemma path_part_chars:
  "set (path_part x) \<subseteq> set (path x) \<union> set (params x) \<union> {CHR ''/'', CHR '';''}"
  by (auto simp: path_part_def Let_def split: if_splits)

lemma split1_sep_part:
  assumes "sep \<notin> set a"
  shows "split1 sep (a @ sep_part sep b) = (a, b)"
  using assms by (simp add: sep_part_def split1_append split1_absent)

lemma sep_part_chars: "set (sep_part sep b) \<subseteq> insert sep (set b)"
  by (auto simp: sep_part_def)

lemma sep_part_safe:
  "url_safe b \<Longrightarrow> \<not> unsafe_url_byte sep \<Longrightarrow> url_safe (sep_part sep b)"
  by (simp add: sep_part_def url_safe_def)

lemma new_netloc_unbracketed:
  assumes "wf_parse pr" "hostname pr = Some h" "host_unbracketed h" "tld_value t"
  defines "nl \<equiv> first_label h @ ''.'' @ t"
  shows "list_all (\<lambda>c. \<not> netloc_delim c) nl" "url_safe nl"
    "CHR ''['' \<notin> set nl" "CHR '']'' \<notin> set nl"
proof -
  note hc = hostname_chars [OF assms(1,2)]
  have t: "is_lower_letter c" if "c \<in> set t" for c
    using tld_value_lower [OF assms(4)] that by (simp add: list_all_iff)
  have cases: "c \<in> set h \<or> c = CHR ''.'' \<or> is_lower_letter c" if "c \<in> set nl" for c
    using that first_label_subset [of h] t by (auto simp: nl_def)
  have "\<not> netloc_delim c" if "c \<in> set nl" for c
    using cases [OF that] hc(1) dot_plain(1) is_lower_letter_plain [of c]
    by (auto simp: list_all_iff)
  then show "list_all (\<lambda>c. \<not> netloc_delim c) nl"
    by (simp add: list_all_iff)
  have "\<not> unsafe_url_byte c" if "c \<in> set nl" for c
    using cases [OF that] hc(2) dot_plain(2) is_lower_letter_plain [of c]
    by (auto simp: url_safe_def list_all_iff)
  then show "url_safe nl"
    by (simp add: url_safe_def list_all_iff)
  show "CHR ''['' \<notin> set nl"
    using cases [of "CHR ''[''"] assms(3) is_lower_letter_plain [of "CHR ''[''"]
    by (auto simp: host_unbracketed_def)
  show "CHR '']'' \<notin> set nl"
    using cases [of "CHR '']''"] assms(3) is_lower_letter_plain [of "CHR '']''"]
    by (auto simp: host_unbracketed_def)
qed

text \<open>Splitting a rebuilt link whose path has no question mark and no hash.\<close>

lemma urlsplit_link:
  assumes "urlparse u = Some pr" "hostname pr = Some h" "host_unbracketed h" "tld_value t"
    and "CHR ''?'' \<notin> set new_path" "CHR ''#'' \<notin> set new_path"
  defines "x \<equiv> pr\<lparr>netloc := first_label h @ ''.'' @ t, path := new_path\<rparr>"
  shows "urlsplit (link_for pr (first_label h) new_path t) =
     Some (scheme pr, first_label h @ ''.'' @ t,
           filter (\<lambda>c. \<not> unsafe_url_byte c) (path_part x), query pr, fragment pr)"
proof -
  let ?nl = "first_label h @ ''.'' @ t"
  let ?safe = "\<lambda>c. \<not> unsafe_url_byte c"
  have wf: "wf_parse pr"
    by (rule urlparse_wf [OF assms(1)])
  note nl = new_netloc_unbracketed [OF wf assms(2,3,4)]
  have link: "link_for pr (first_label h) new_path t =
      scheme_part (scheme pr) @ ''//'' @ ?nl @ tail_part x"
    using urlunparse_shape [of x] by (simp add: link_for_def x_def)
  have s: "scheme_ok (scheme pr)"
    using wf by (simp add: wf_parse_def)
  have "url_safe (query_part x)"
    using wf unfolding query_part_def
    by (intro sep_part_safe) (simp_all add: wf_parse_def x_def unsafe_url_byte_def)
  then have q_safe: "filter ?safe (query_part x) = query_part x"
    by (rule url_safe_filter_id)
  have "url_safe (fragment_part x)"
    using wf unfolding fragment_part_def
    by (intro sep_part_safe) (simp_all add: wf_parse_def x_def unsafe_url_byte_def)
  then have f_safe: "filter ?safe (fragment_part x) = fragment_part x"
    by (rule url_safe_filter_id)
  have tail: "filter ?safe (tail_part x) =
      filter ?safe (path_part x) @ query_part x @ fragment_part x"
    by (simp add: tail_part_eq q_safe f_safe)
  have params_chars: "CHR ''?'' \<notin> set (params pr)" "CHR ''#'' \<notin> set (params pr)"
    using wf by (auto simp: wf_parse_def list_all_iff netloc_delim_def)
  have pp: "CHR ''?'' \<notin> set (path_part x)" "CHR ''#'' \<notin> set (path_part x)"
    using path_part_chars [of x] assms(5,6) params_chars by (auto simp: x_def)
  have q_hash: "CHR ''#'' \<notin> set (query_part x)"
    using wf sep_part_chars [of "CHR ''?''" "query pr"]
    by (auto simp: wf_parse_def query_part_def x_def)
  have fx: "fragment_part x = sep_part CHR ''#'' (fragment pr)"
    and qx: "query_part x = sep_part CHR ''?'' (query pr)"
    by (simp_all add: fragment_part_def query_part_def x_def)
  have "CHR ''#'' \<notin> set (filter ?safe (path_part x) @ query_part x)"
    using pp(2) q_hash by simp
  then have hash:
    "split1 CHR ''#'' ((filter ?safe (path_part x) @ query_part x) @ fragment_part x) =
       (filter ?safe (path_part x) @ query_part x, fragment pr)"
    unfolding fx by (rule split1_sep_part)
  have "CHR ''?'' \<notin> set (filter ?safe (path_part x))"
    using pp(1) by simp
  then have quest: "split1 CHR ''?'' (filter ?safe (path_part x) @ query_part x) =
      (filter ?safe (path_part x), query pr)"
    unfolding qx by (rule split1_sep_part)
  have tail': "filter ?safe (tail_part x) =
      (filter ?safe (path_part x) @ query_part x) @ fragment_part x"
    using tail by simp
  show ?thesis
    unfolding link
    using urlsplit_rebuilt [OF s nl(1,2,3,4) tail_part_starts [of x]]
    unfolding Let_def tail' hash fst_conv snd_conv quest
    by simp
qed

lemma splitparams_rebuilt:
  assumes "CHR ''/'' \<in> set a" "CHR '';'' \<notin> set a" "CHR ''/'' \<notin> set b"
  shows "splitparams (a @ CHR '';'' # b) = (a, b)"
proof -
  from split_list_last [OF assms(1)]
  obtain a1 seg where a: "a = a1 @ CHR ''/'' # seg" and seg: "CHR ''/'' \<notin> set seg"
    by blast
  let ?last = "seg @ CHR '';'' # b"
  have nosl: "CHR ''/'' \<notin> set (rev ?last)"
    using seg assms(3) by simp
  have "rev (a @ CHR '';'' # b) = rev ?last @ CHR ''/'' # rev a1"
    by (simp add: a)
  then have tw: "takeWhile (\<lambda>c. c \<noteq> CHR ''/'') (rev (a @ CHR '';'' # b)) = rev ?last"
    using takeWhile_upto_sep [OF nosl, of "rev a1"] by simp
  have semi: "CHR '';'' \<notin> set seg"
    using assms(2) a by simp
  have tk: "take (length (a @ CHR '';'' # b) - length ?last) (a @ CHR '';'' # b) = a1 @ ''/''"
    by (simp add: a)
  show ?thesis
    unfolding splitparams_def Let_def tw rev_rev_ident tk
    using assms(1) takeWhile_upto_sep [OF semi, of b] dropWhile_upto_sep [OF semi, of b]
    by (simp add: a)
qed

text \<open>A link is parsed back to the scheme, query and fragment it was built from when its
  path has no question mark and no hash.\<close>

lemma reparse_frame:
  assumes "urlparse u = Some pr" "hostname pr = Some h" "host_unbracketed h" "tld_value t"
    and "CHR ''?'' \<notin> set new_path" "CHR ''#'' \<notin> set new_path"
  shows "\<exists>q. urlparse (link_for pr (first_label h) new_path t) = Some q \<and>
           scheme q = scheme pr \<and> netloc q = first_label h @ ''.'' @ t \<and>
           query q = query pr \<and> fragment q = fragment pr"
  unfolding urlparse_def urlsplit_link [OF assms]
  by (simp add: Let_def split_beta)

text \<open>With a clean path the whole parse result comes back.\<close>

lemma reparse_all:
  assumes "urlparse u = Some pr" "hostname pr = Some h" "host_unbracketed h" "tld_value t"
    and "clean_path new_path"
  shows "urlparse (link_for pr (first_label h) new_path t) =
           Some (pr\<lparr>netloc := first_label h @ ''.'' @ t, path := new_path\<rparr>)"
proof -
  let ?x = "pr\<lparr>netloc := first_label h @ ''.'' @ t, path := new_path\<rparr>"
  have wf: "wf_parse pr"
    by (rule urlparse_wf [OF assms(1)])
  have cp: "CHR ''?'' \<notin> set new_path" "CHR ''#'' \<notin> set new_path" "CHR '';'' \<notin> set new_path"
    "url_safe new_path" "take 1 new_path = ''/''"
    using assms(5) by (simp_all add: clean_path_def)
  have slash: "CHR ''/'' \<in> set new_path"
    using cp(5) by (cases new_path) auto
  have split: "urlsplit (link_for pr (first_label h) new_path t) =
      Some (scheme pr, first_label h @ ''.'' @ t,
            filter (\<lambda>c. \<not> unsafe_url_byte c) (path_part ?x), query pr, fragment pr)"
    by (rule urlsplit_link [OF assms(1,2,3,4) cp(1,2)])
  have params_ok: "url_safe (params pr)" "CHR ''/'' \<notin> set (params pr)"
    "scheme pr \<in> set uses_params \<or> params pr = []"
    using wf by (auto simp: wf_parse_def list_all_iff netloc_delim_def)
  show ?thesis
  proof (cases "params pr = []")
    case True
    have "path_part ?x = new_path"
      using True cp(5) by (cases new_path) (auto simp: path_part_def)
    then have "filter (\<lambda>c. \<not> unsafe_url_byte c) (path_part ?x) = new_path"
      using url_safe_filter_id [OF cp(4)] by simp
    then show ?thesis
      unfolding urlparse_def split using True cp(3) by simp
  next
    case False
    have pp: "path_part ?x = new_path @ CHR '';'' # params pr"
      using False cp(5) by (cases new_path) (auto simp: path_part_def)
    have "url_safe (new_path @ CHR '';'' # params pr)"
      using cp(4) params_ok(1) by (simp add: url_safe_def unsafe_url_byte_def)
    then have f: "filter (\<lambda>c. \<not> unsafe_url_byte c) (path_part ?x) =
        new_path @ CHR '';'' # params pr"
      unfolding pp by (rule url_safe_filter_id)
    have sp: "splitparams (new_path @ CHR '';'' # params pr) = (new_path, params pr)"
      by (rule splitparams_rebuilt [OF slash cp(3) params_ok(2)])
    have "scheme pr \<in> set uses_params"
      using params_ok(3) False by simp
    then show ?thesis
      unfolding urlparse_def split f by (simp add: sp)
  qed
qed

lemma str_digits_unfold:
  "str_digits n = (if n < 10 then [decimal_digits ! nat n]
                   else str_digits (n div 10) @ [decimal_digits ! nat (n mod 10)])"
  unfolding decimal_digits_def by (rule str_digits.simps)

lemma decimal_digit_mem: "k < 10 \<Longrightarrow> decimal_digits ! k \<in> set decimal_digits"
  by (rule nth_mem) (simp add: decimal_digits_def)

lemma str_digits_chars: "set (str_digits n) \<subseteq> set decimal_digits"
proof (induction n rule: str_digits.induct)
  case (1 n)
  show ?case
  proof (cases "n < 10")
    case True
    then have "nat n < 10" by simp
    then have "decimal_digits ! nat n \<in> set decimal_digits"
      by (rule decimal_digit_mem)
    moreover have "str_digits n = [decimal_digits ! nat n]"
      using True by (subst str_digits_unfold) (simp only: if_True)
    ultimately show ?thesis
      by (simp only: list.set) blast
  next
    case False
    have "nat (n mod 10) < 10" by simp
    then have "decimal_digits ! nat (n mod 10) \<in> set decimal_digits"
      by (rule decimal_digit_mem)
    moreover have "str_digits n = str_digits (n div 10) @ [decimal_digits ! nat (n mod 10)]"
      using False by (subst str_digits_unfold) (simp only: if_False)
    moreover have "set (str_digits (n div 10)) \<subseteq> set decimal_digits"
      by (rule "1.IH" [OF False])
    ultimately show ?thesis
      by (simp only: set_append list.set) blast
  qed
qed

lemma str_int_chars: "c \<in> set (str_int i) \<Longrightarrow> is_digit_or_minus c"
  using str_digits_chars [of i] str_digits_chars [of "- i"]
  unfolding str_int_def is_digit_or_minus_def by (cases "i < 0") auto

lemma digit_or_minus_plain:
  assumes "is_digit_or_minus c"
  shows "c \<noteq> CHR ''?''" "c \<noteq> CHR ''#''" "c \<noteq> CHR '';''" "\<not> unsafe_url_byte c"
  using assms unfolding is_digit_or_minus_def decimal_digits_def unsafe_url_byte_def
  by auto

lemma substitute_chars:
  assumes "c \<in> set (substitute p i)"
  shows "c \<in> set p \<or> is_digit_or_minus c"
proof -
  have "set (pattern_prefix p) \<subseteq> set p"
    by (auto simp: pattern_prefix_def dest: set_takeWhileD)
  moreover have "set (pattern_suffix p) \<subseteq> set p"
    by (auto simp: pattern_suffix_def dest: in_set_dropD set_dropWhileD)
  ultimately show ?thesis
    using assms str_int_chars [of c i] by (auto simp: substitute_def)
qed

lemma substitute_clean:
  assumes "clean_path p"
  shows "clean_path (substitute p i)"
proof -
  from assms obtain rest where p: "p = CHR ''/'' # rest"
    by (cases p) (auto simp: clean_path_def)
  have "pattern_prefix p = CHR ''/'' # pattern_prefix rest"
    by (simp add: p pattern_prefix_def is_brace_def)
  then have first: "take 1 (substitute p i) = ''/''"
    by (simp add: substitute_def)
  have pchars: "c \<noteq> CHR ''?'' \<and> c \<noteq> CHR ''#'' \<and> c \<noteq> CHR '';'' \<and> \<not> unsafe_url_byte c"
    if "c \<in> set p" for c
    using assms that by (auto simp: clean_path_def url_safe_def list_all_iff)
  have all: "c \<noteq> CHR ''?'' \<and> c \<noteq> CHR ''#'' \<and> c \<noteq> CHR '';'' \<and> \<not> unsafe_url_byte c"
    if "c \<in> set (substitute p i)" for c
  proof -
    from substitute_chars [OF that] show ?thesis
    proof
      assume "c \<in> set p"
      then show ?thesis by (rule pchars)
    next
      assume "is_digit_or_minus c"
      then show ?thesis
        using digit_or_minus_plain [of c] by blast
    qed
  qed
  have "url_safe (substitute p i)"
    using all by (simp add: url_safe_def list_all_iff)
  moreover have "CHR ''?'' \<notin> set (substitute p i)" "CHR ''#'' \<notin> set (substitute p i)"
    "CHR '';'' \<notin> set (substitute p i)"
    using all by blast+
  ultimately show ?thesis
    using first by (simp add: clean_path_def)
qed

lemma substitute_no_query_chars:
  assumes "CHR ''?'' \<notin> set p" "CHR ''#'' \<notin> set p"
  shows "CHR ''?'' \<notin> set (substitute p i)" "CHR ''#'' \<notin> set (substitute p i)"
  using substitute_chars [of "CHR ''?''" p i] substitute_chars [of "CHR ''#''" p i]
    digit_or_minus_plain(1) [of "CHR ''?''"] digit_or_minus_plain(2) [of "CHR ''#''"] assms
  by blast+

lemma map_map2_first:
  assumes "length xs = length ys" "\<And>x y. y \<in> set ys \<Longrightarrow> g (f x y) = h x"
  shows "map g (map2 f xs ys) = map h xs"
  using assms by (induction xs ys rule: list_induct2) auto

section \<open>The path, query and fragment of the generated links\<close>

text \<open>
  Claim C5 as stated fails for a pattern that does not start with a slash: for the
  pattern \<^verbatim>\<open>page{}\<close> the first link is \<^verbatim>\<open>https://example.com/page1\<close>, whose path is
  \<^verbatim>\<open>/page1\<close>, not the substituted pattern \<^verbatim>\<open>page1\<close>.
\<close>

theorem C5_counterexample:
  "valid_base_url ''https://example.com'' \<and> single_placeholder ''page{}'' \<and>
   links_of (generate_links ''https://example.com'' 1 ''page{}'' zero_rng) =
     Inr [''https://example.com/page1''] \<and>
   url_path ''https://example.com/page1'' = Some ''/page1'' \<and>
   substitute ''page{}'' 1 = ''page1''"
  by code_simp

text \<open>
  Claim C5, amended.  For every valid base URL whose hostname has no bracket, every count
  \<open>num_links \<ge> 0\<close> and every single-placeholder pattern that starts with a slash and
  contains no question mark, hash, semicolon, tab, carriage return or line feed,
  \<open>generate_links\<close> returns \<open>num_links\<close> links, and the path \<^verbatim>\<open>urlparse\<close> finds in the
  \<open>i\<close>-th of them is the pattern with the decimal index \<open>i\<close> at its placeholder, for
  \<open>i\<close> from 1 to \<open>num_links\<close> in this order.
\<close>

theorem C5_paths_in_order:
  assumes "valid_base_url base_url" "host_unbracketed (parsed_hostname base_url)"
    "0 \<le> num_links" "single_placeholder path_pattern" "clean_path path_pattern"
  shows "\<exists>links g'. generate_links base_url num_links path_pattern g = Inr (links, g') \<and>
     length links = nat num_links \<and>
     map url_path links = map (\<lambda>i. Some (substitute path_pattern i)) [1..num_links]"
proof -
  from assms(1) obtain pr h where pr: "urlparse base_url = Some pr" "hostname pr = Some h"
    and h: "parsed_hostname base_url = h"
    by (rule valid_base_urlE)
  have hu: "host_unbracketed h"
    using assms(2) h by simp
  have "\<And>i. 1 \<le> i \<Longrightarrow> i \<le> num_links \<Longrightarrow>
      py_format path_pattern i = Inr (substitute path_pattern i)"
    using assms(4) by (simp add: py_format_single)
  from generate_links_characterised [OF assms(1) this, of num_links g]
  obtain tlds g' where t: "length tlds = nat num_links" "list_all tld_value tlds"
    "generate_links base_url num_links path_pattern g =
       Inr (map2 (\<lambda>i t. generated_link base_url (substitute path_pattern i) t)
              [1..num_links] tlds, g')"
    by blast
  let ?links = "map2 (\<lambda>i t. generated_link base_url (substitute path_pattern i) t)
              [1..num_links] tlds"
  have one: "url_path (generated_link base_url (substitute path_pattern i) t) =
      Some (substitute path_pattern i)" if "t \<in> set tlds" for i t
  proof -
    have "tld_value t"
      using t(2) that by (simp add: list_all_iff)
    from reparse_all [OF pr hu this substitute_clean [OF assms(5)], of i]
    show ?thesis
      by (simp add: url_path_def generated_link_eq [OF pr])
  qed
  have len: "length [1..num_links] = length tlds"
    using t(1) by simp
  have "map url_path ?links = map (\<lambda>i. Some (substitute path_pattern i)) [1..num_links]"
    using len one
    by (rule map_map2_first [of "[1..num_links]" tlds url_path
          "\<lambda>i t. generated_link base_url (substitute path_pattern i) t"
          "\<lambda>i. Some (substitute path_pattern i)"])
  moreover have "length ?links = nat num_links"
    using t(1) by simp
  ultimately show ?thesis
    using t(3) by blast
qed

lemma example_com_unbracketed: "host_unbracketed (parsed_hostname ''https://example.com'')"
  by code_simp

lemma page_pattern_clean: "clean_path ''/page{}''"
  by code_simp

theorem C5_paths_in_order_witness:
  "valid_base_url ''https://example.com'' \<and>
   host_unbracketed (parsed_hostname ''https://example.com'') \<and> (0 :: int) \<le> 3 \<and>
   single_placeholder ''/page{}'' \<and> clean_path ''/page{}'' \<and>
   (\<exists>links g'. generate_links ''https://example.com'' 3 ''/page{}'' count_rng = Inr (links, g') \<and>
      length links = 3 \<and>
      map url_path links = map (\<lambda>i. Some (substitute ''/page{}'' i)) [1..3])"
  using C5_paths_in_order [of "''https://example.com''" 3 "''/page{}''" count_rng]
    example_com_valid example_com_unbracketed page_pattern_single page_pattern_clean
  by simp

text \<open>
  Claim C8 as stated fails for a pattern with a question mark: for the base URL
  \<^verbatim>\<open>https://example.com/?a=1#top\<close> and the pattern \<^verbatim>\<open>/p?x{}\<close> the link is
  \<^verbatim>\<open>https://example.com/p?x1?a=1#top\<close>, whose query is \<^verbatim>\<open>x1?a=1\<close> and not \<^verbatim>\<open>a=1\<close>.
\<close>

theorem C8_counterexample:
  "urlparse ''https://example.com/?a=1#top'' =
     Some \<lparr>scheme = ''https'', netloc = ''example.com'', path = ''/'', params = [],
            query = ''a=1'', fragment = ''top''\<rparr> \<and>
   valid_base_url ''https://example.com/?a=1#top'' \<and> single_placeholder ''/p?x{}'' \<and>
   links_of (generate_links ''https://example.com/?a=1#top'' 1 ''/p?x{}'' zero_rng) =
     Inr [''https://example.com/p?x1?a=1#top''] \<and>
   urlparse ''https://example.com/p?x1?a=1#top'' =
     Some \<lparr>scheme = ''https'', netloc = ''example.com'', path = ''/p'', params = [],
            query = ''x1?a=1'', fragment = ''top''\<rparr>"
  by code_simp

text \<open>
  Claim C8, amended.  For every base URL that \<^verbatim>\<open>urlparse\<close> accepts with a hostname
  without brackets, every count and every single-placeholder pattern that contains no
  question mark and no hash, each returned link is parsed by \<^verbatim>\<open>urlparse\<close> to a result
  with the scheme, the query and the fragment of the base URL, and with the network
  location made of the base hostname, a dot and a TLD value.
\<close>

theorem C8_scheme_query_fragment_kept:
  assumes "urlparse base_url = Some pr" "hostname pr = Some h" "host_unbracketed h"
    "single_placeholder path_pattern"
    "CHR ''?'' \<notin> set path_pattern" "CHR ''#'' \<notin> set path_pattern"
  shows "\<exists>links g'. generate_links base_url num_links path_pattern g = Inr (links, g') \<and>
     length links = nat num_links \<and>
     list_all (\<lambda>link. \<exists>q tld. urlparse link = Some q \<and> tld_value tld \<and>
                 scheme q = scheme pr \<and> query q = query pr \<and> fragment q = fragment pr \<and>
                 netloc q = first_label h @ ''.'' @ tld) links"
proof -
  let ?P = "\<lambda>link. \<exists>q tld. urlparse link = Some q \<and> tld_value tld \<and>
      scheme q = scheme pr \<and> query q = query pr \<and> fragment q = fragment pr \<and>
      netloc q = first_label h @ ''.'' @ tld"
  have v: "valid_base_url base_url"
    using assms(1,2) by (simp add: valid_base_url_def)
  have P: "?P (generated_link base_url (substitute path_pattern i) t)" if "tld_value t" for i t
    using reparse_frame [OF assms(1,2,3) that substitute_no_query_chars [OF assms(5,6)], of i] that
    by (auto simp: generated_link_eq [OF assms(1,2)])
  show ?thesis
    by (rule generate_links_single [of base_url path_pattern ?P, OF v assms(4) P])
qed

lemma docs_url_parsed:
  "urlparse ''https://example.com/docs?a=1#top'' =
     Some \<lparr>scheme = ''https'', netloc = ''example.com'', path = ''/docs'', params = [],
            query = ''a=1'', fragment = ''top''\<rparr>"
  by code_simp

lemma docs_url_hostname:
  "hostname \<lparr>scheme = ''https'', netloc = ''example.com'', path = ''/docs'', params = [],
            query = ''a=1'', fragment = ''top''\<rparr> = Some ''example.com''"
  by code_simp

lemma docs_url_facts:
  "host_unbracketed ''example.com''" "first_label ''example.com'' = ''example''"
  "CHR ''?'' \<notin> set ''/page{}''" "CHR ''#'' \<notin> set ''/page{}''"
  by code_simp+

theorem C8_scheme_query_fragment_kept_witness:
  "urlparse ''https://example.com/docs?a=1#top'' =
     Some \<lparr>scheme = ''https'', netloc = ''example.com'', path = ''/docs'', params = [],
            query = ''a=1'', fragment = ''top''\<rparr> \<and>
   host_unbracketed ''example.com'' \<and> single_placeholder ''/page{}'' \<and>
   CHR ''?'' \<notin> set ''/page{}'' \<and> CHR ''#'' \<notin> set ''/page{}'' \<and>
   (\<exists>links g'. generate_links ''https://example.com/docs?a=1#top'' 2 ''/page{}'' count_rng =
        Inr (links, g') \<and> length links = 2 \<and>
      list_all (\<lambda>link. \<exists>q tld. urlparse link = Some q \<and> tld_value tld \<and>
                  scheme q = ''https'' \<and> query q = ''a=1'' \<and> fragment q = ''top'' \<and>
                  netloc q = ''example.'' @ tld) links)"
  using C8_scheme_query_fragment_kept [OF docs_url_parsed docs_url_hostname docs_url_facts(1)
      page_pattern_single docs_url_facts(3,4), of 2 count_rng]
    docs_url_parsed docs_url_facts page_pattern_single
  by simp

end
